theory Spec2Isabelle
  imports Complex_Main
begin

section \<open>JavaScript numbers\<close>

text \<open>
  A JavaScript number is a finite value, one of the two infinities, or NaN. Finite
  values are idealised as reals: rounding, overflow to an infinity and the sign of zero
  are not modelled. The operations below follow IEEE 754 on that idealisation; in
  particular \<open>0 / 0\<close> is NaN and every comparison with NaN is false.
\<close>

datatype jsnum = Num real | PosInf | NegInf | NaN

fun js_neg :: "jsnum \<Rightarrow> jsnum" where
  "js_neg (Num r) = Num (- r)"
| "js_neg PosInf = NegInf"
| "js_neg NegInf = PosInf"
| "js_neg NaN = NaN"

fun js_abs :: "jsnum \<Rightarrow> jsnum" where
  "js_abs (Num r) = Num \<bar>r\<bar>"
| "js_abs PosInf = PosInf"
| "js_abs NegInf = PosInf"
| "js_abs NaN = NaN"

fun js_add :: "jsnum \<Rightarrow> jsnum \<Rightarrow> jsnum" where
  "js_add (Num a) (Num b) = Num (a + b)"
| "js_add NaN _ = NaN"
| "js_add _ NaN = NaN"
| "js_add PosInf NegInf = NaN"
| "js_add NegInf PosInf = NaN"
| "js_add PosInf _ = PosInf"
| "js_add _ PosInf = PosInf"
| "js_add NegInf _ = NegInf"
| "js_add _ NegInf = NegInf"

fun js_mul :: "jsnum \<Rightarrow> jsnum \<Rightarrow> jsnum" where
  "js_mul (Num a) (Num b) = Num (a * b)"
| "js_mul NaN _ = NaN"
| "js_mul _ NaN = NaN"
| "js_mul PosInf (Num b) = (if b = 0 then NaN else if 0 < b then PosInf else NegInf)"
| "js_mul NegInf (Num b) = (if b = 0 then NaN else if 0 < b then NegInf else PosInf)"
| "js_mul (Num a) PosInf = (if a = 0 then NaN else if 0 < a then PosInf else NegInf)"
| "js_mul (Num a) NegInf = (if a = 0 then NaN else if 0 < a then NegInf else PosInf)"
| "js_mul PosInf PosInf = PosInf"
| "js_mul PosInf NegInf = NegInf"
| "js_mul NegInf PosInf = NegInf"
| "js_mul NegInf NegInf = PosInf"

fun js_div :: "jsnum \<Rightarrow> jsnum \<Rightarrow> jsnum" where
  "js_div (Num a) (Num b) =
     (if b = 0 then (if a = 0 then NaN else if 0 < a then PosInf else NegInf)
      else Num (a / b))"
| "js_div NaN _ = NaN"
| "js_div _ NaN = NaN"
| "js_div (Num a) PosInf = Num 0"
| "js_div (Num a) NegInf = Num 0"
| "js_div PosInf (Num b) = (if 0 \<le> b then PosInf else NegInf)"
| "js_div NegInf (Num b) = (if 0 \<le> b then NegInf else PosInf)"
| "js_div PosInf _ = NaN"
| "js_div NegInf _ = NaN"

fun js_lt :: "jsnum \<Rightarrow> jsnum \<Rightarrow> bool" where
  "js_lt (Num a) (Num b) = (a < b)"
| "js_lt NaN _ = False"
| "js_lt _ NaN = False"
| "js_lt NegInf NegInf = False"
| "js_lt NegInf _ = True"
| "js_lt _ NegInf = False"
| "js_lt PosInf _ = False"
| "js_lt _ PosInf = True"

text \<open>\<open>isFinite\<close>, and the truthiness of a number (\<open>0\<close> and NaN are falsy).\<close>

fun js_isFinite :: "jsnum \<Rightarrow> bool" where
  "js_isFinite (Num r) = True"
| "js_isFinite _ = False"

fun js_truthy :: "jsnum \<Rightarrow> bool" where
  "js_truthy (Num r) = (r \<noteq> 0)"
| "js_truthy NaN = False"
| "js_truthy _ = True"

text \<open>
  The values a data row or a grid cell holds: a number or a string. An absent key
  (\<open>undefined\<close>) is \<open>None\<close> in the map that models the row.
\<close>

datatype jsval = JNum jsnum | JStr string

section \<open>Area series: the data processor\<close>

text \<open>
  A row is a key-value record. Value keys are read as numbers: \<open>yData\<close> is declared
  \<open>number[][]\<close>, and a binding that is not a number is read as not finite. That is
  what the source does for an absent key and for a string that is not numeric; a numeric
  string under a value key is outside the embedding (see \<open>numericValues\<close> below).
\<close>

type_synonym datum = "string \<rightharpoonup> jsval"

fun numberOf :: "jsval option \<Rightarrow> jsnum" where
  "numberOf (Some (JNum v)) = v"
| "numberOf _ = NaN"

record minmax =
  minv :: jsnum
  maxv :: jsnum

record chart =
  layoutPending :: bool
  dataPending :: bool

record point =
  px :: jsnum
  py :: jsnum

text \<open>A JavaScript array with holes: \<open>None\<close> is a hole.\<close>

type_synonym 'a jsarray = "'a option list"

record areaSelectionDatum =
  itemId :: "string option"
  points :: "point jsarray"

record markerSelectionDatum =
  mIndex :: nat
  mItemId :: "string option"
  mSeriesDatum :: datum
  mYValue :: "jsval option"
  mYKey :: "string option"
  mPoint :: point
  mFill :: "string option"
  mStroke :: "string option"

record labelSelectionDatum =
  lIndex :: nat
  lItemId :: "string option"
  lPoint :: point
  lLabel :: "string option"

text \<open>
  A scale of an axis (an external collaborator): \<open>convert\<close> and the optional
  \<open>bandwidth\<close>.
\<close>

record 'a scale =
  convert :: "'a \<Rightarrow> jsnum"
  bandwidth :: "jsnum option"

text \<open>Retained scene nodes, one per datum of a selection.\<close>

record pathNode =
  pnDatum :: areaSelectionDatum
  pnVisible :: bool
  pnPath :: "point list"

record markerNode =
  mnDatum :: markerSelectionDatum
  mnTranslation :: point
  mnVisible :: bool

record textNode =
  tnDatum :: labelSelectionDatum
  tnText :: "string option"
  tnPosition :: point
  tnVisible :: bool

datatype event = DataProcessed | ScheduleData

record series =
  xKey :: string
  yKeys :: "string list"
  sdata :: "datum list option"
  seriesItemEnabled :: "string \<rightharpoonup> bool"
  normalizedTo :: "jsnum option"
  xData :: "jsval option list"
  yData :: "jsnum list list"
  yDomain :: "jsnum \<times> jsnum"
  visible :: bool
  schart :: "chart option"
  xAxis :: "jsval option scale option"
  yAxis :: "jsnum scale option"
  markerEnabled :: bool
  labelEnabled :: bool
  labelFormatter :: "(jsval option \<Rightarrow> string) option"
  fills :: "string list"
  strokes :: "string list"
  groupVisible :: bool
  fillSelection :: "pathNode list"
  strokeSelection :: "pathNode list"
  markerSelection :: "markerNode list"
  labelSelection :: "textNode list"
  markerSelectionData :: "markerSelectionDatum list"
  fired :: "event list"

text \<open>
  Modelled from the spec: \<open>scheduleData\<close> and \<open>fireEvent\<close> of the base class are not
  among the sources. The spec has \<open>processData\<close> emit a "data processed" notification
  and the series data rebuilt on every data or key change; the embedding records each
  call in the series' event log.
\<close>

definition scheduleData :: "series \<Rightarrow> series" where
  "scheduleData s = s\<lparr>fired := fired s @ [ScheduleData]\<rparr>"

definition fireEvent :: "event \<Rightarrow> series \<Rightarrow> series" where
  "fireEvent e s = s\<lparr>fired := fired s @ [e]\<rparr>"

text \<open>The \<open>normalizedTo\<close> setter.\<close>

definition set_normalizedTo :: "jsnum option \<Rightarrow> series \<Rightarrow> series" where
  "set_normalizedTo value s =
     (let absValue = (case value of
                        None \<Rightarrow> None
                      | Some v \<Rightarrow> if js_truthy v then Some (js_abs v) else None)
      in if normalizedTo s \<noteq> absValue
         then scheduleData (s\<lparr>normalizedTo := absValue\<rparr>)
         else s)"

text \<open>
  Modelled from the spec: \<open>findMinMax\<close> of \<open>util/array\<close> is not among the sources.
  The spec has a row scaled by "that row's own negative magnitude" and "that row's own
  positive magnitude", the sum of its negative values and the sum of its non-negative
  values: the minimum is the running total of the negative entries, the maximum the
  running total of the others.
\<close>

definition findMinMax :: "jsnum list \<Rightarrow> minmax" where
  "findMinMax values =
     foldl (\<lambda>t v. if js_lt v (Num 0) then t\<lparr>minv := js_add (minv t) v\<rparr>
                   else t\<lparr>maxv := js_add (maxv t) v\<rparr>)
           \<lparr>minv = Num 0, maxv = Num 0\<rparr> values"

definition findLargestMinMax :: "minmax list \<Rightarrow> minmax" where
  "findLargestMinMax totals =
     foldl (\<lambda>acc total.
              let acc1 = (if js_lt (minv total) (minv acc) then acc\<lparr>minv := minv total\<rparr> else acc)
              in if js_lt (maxv acc1) (maxv total) then acc1\<lparr>maxv := maxv total\<rparr> else acc1)
           \<lparr>minv = Num 0, maxv = Num 0\<rparr> totals"

text \<open>The value vector of a row: the row's value if it is finite and enabled, else 0.\<close>

definition yValues :: "string list \<Rightarrow> (string \<rightharpoonup> bool) \<Rightarrow> datum \<Rightarrow> jsnum list" where
  "yValues ks enabled d =
     map (\<lambda>yKey. let value = numberOf (d yKey)
                 in if js_isFinite value \<and> enabled yKey = Some True then value else Num 0) ks"

text \<open>The scaling of one entry \<open>y\<close> of row \<open>i\<close> to the target \<open>n\<close>.\<close>

definition normalize :: "minmax \<Rightarrow> jsnum \<Rightarrow> jsnum \<Rightarrow> jsnum" where
  "normalize mm n y =
     (if js_lt y (Num 0) then js_mul (js_div (js_neg y) (minv mm)) n
      else js_mul (js_div y (maxv mm)) n)"

text \<open>
  \<open>processData\<close>. \<open>fixNumericExtent\<close> of the base class is not among the sources and is
  a parameter; the warning printed for a missing key is not modelled. The result is the
  returned flag and the series after the call.
\<close>

definition processData :: "(jsnum \<times> jsnum \<Rightarrow> jsnum \<times> jsnum) \<Rightarrow> series \<Rightarrow> bool \<times> series" where
  "processData fixNumericExtent s =
     (let rows = (if xKey s \<noteq> [] \<and> yKeys s \<noteq> []
                  then (case sdata s of Some d \<Rightarrow> d | None \<Rightarrow> []) else []);
          xs = map (\<lambda>d. d (xKey s)) rows;
          ys = map (yValues (yKeys s) (seriesItemEnabled s)) rows;
          yMinMax = map findMinMax ys;
          yLargestMinMax = findLargestMinMax yMinMax;
          normalizing = (case normalizedTo s of
                           None \<Rightarrow> False
                         | Some n \<Rightarrow> js_truthy n \<and> js_isFinite n);
          n = (case normalizedTo s of None \<Rightarrow> NaN | Some n \<Rightarrow> n);
          yMin = (if normalizing
                  then (if js_lt (minv yLargestMinMax) (Num 0) then js_neg n else Num 0)
                  else minv yLargestMinMax);
          yMax0 = (if normalizing then n else maxv yLargestMinMax);
          ys' = (if normalizing
                 then map (\<lambda>i. map (normalize (yMinMax ! i) n) (ys ! i)) [0..<length ys]
                 else ys);
          yMax = (if yMin = Num 0 \<and> yMax0 = Num 0 then Num 1 else yMax0)
      in (True,
          fireEvent DataProcessed
            (s\<lparr>xData := xs, yData := ys', yDomain := fixNumericExtent (yMin, yMax)\<rparr>)))"

section \<open>Area series: selection data and the update cycle\<close>

datatype error = TypeError

text \<open>
  Reading and writing a JavaScript array by index: a read out of range or of a hole is
  \<open>undefined\<close>; a write beyond the end extends the array with holes.
\<close>

definition js_get :: "'a jsarray \<Rightarrow> nat \<Rightarrow> 'a option" where
  "js_get xs i = (if i < length xs then xs ! i else None)"

definition js_set :: "'a jsarray \<Rightarrow> nat \<Rightarrow> 'a \<Rightarrow> 'a jsarray" where
  "js_set xs i v =
     (if i < length xs then xs[i := Some v]
      else xs @ replicate (i - length xs) None @ [Some v])"

text \<open>A \<open>forEach\<close> whose callback may throw: the first error ends the loop.\<close>

fun forEachE :: "('a \<Rightarrow> 'b \<Rightarrow> error + 'a) \<Rightarrow> 'a \<Rightarrow> 'b list \<Rightarrow> error + 'a" where
  "forEachE f a [] = Inr a"
| "forEachE f a (x # xs) = (case f a x of Inl e \<Rightarrow> Inl e | Inr a' \<Rightarrow> forEachE f a' xs)"

record selectionData =
  areaSelectionData :: "areaSelectionDatum jsarray"
  newMarkerSelectionData :: "markerSelectionDatum list"
  labelSelectionData :: "labelSelectionDatum list"

record stacking =
  prevMin :: jsnum
  prevMax :: jsnum
  selData :: selectionData

text \<open>\<open>(scale.bandwidth || 0) / 2\<close>.\<close>

definition halfBandwidth :: "'a scale \<Rightarrow> jsnum" where
  "halfBandwidth sc =
     js_div (case bandwidth sc of
               None \<Rightarrow> Num 0
             | Some b \<Rightarrow> if js_truthy b then b else Num 0) (Num 2)"

text \<open>
  The text of a label: the formatter's if there is one, else \<open>toFixed(2)\<close> of a finite
  value (\<open>toFixed2\<close>, a parameter), else the value as a string, else the empty string.
  A string is read as not finite, as in \<open>yValues\<close>; on a string that reads as a finite
  number the source calls \<open>toFixed\<close> on the string and throws, a case outside the
  embedding (see \<open>numericValues\<close> below).
\<close>

definition labelTextOf :: "(real \<Rightarrow> string) \<Rightarrow> (jsval option \<Rightarrow> string) option \<Rightarrow> jsval option \<Rightarrow> string" where
  "labelTextOf toFixed2 formatter yValue =
     (case formatter of
        Some f \<Rightarrow> f yValue
      | None \<Rightarrow>
          (case yValue of
             Some (JNum (Num r)) \<Rightarrow> toFixed2 r
           | Some (JNum PosInf) \<Rightarrow> ''Infinity''
           | Some (JNum NegInf) \<Rightarrow> ''-Infinity''
           | Some (JNum NaN) \<Rightarrow> []
           | Some (JStr t) \<Rightarrow> t
           | None \<Rightarrow> []))"

text \<open>
  The inner callback of \<open>generateSelectionData\<close>: value \<open>curr\<close> at position \<open>j\<close> of
  row \<open>i\<close>. Styling fields of a label other than its text are not modelled.
\<close>

definition stackValue ::
  "series \<Rightarrow> (real \<Rightarrow> string) \<Rightarrow> jsnum scale \<Rightarrow> jsnum \<Rightarrow> nat \<Rightarrow> nat \<Rightarrow> datum
     \<Rightarrow> jsnum \<Rightarrow> stacking \<Rightarrow> jsnum \<times> nat \<Rightarrow> stacking" where
  "stackValue s toFixed2 yScale yOffset lastIndex i seriesDatum x st cj =
     (let curr = fst cj; j = snd cj;
          prev = (if js_lt curr (Num 0) then prevMin st else prevMax st);
          y = js_add (convert yScale (js_add prev curr)) yOffset;
          yKey = (if j < length (yKeys s) then Some (yKeys s ! j) else None);
          yValue = seriesDatum (case yKey of Some k \<Rightarrow> k | None \<Rightarrow> ''undefined'');
          markerDatum =
            \<lparr>mIndex = i, mItemId = yKey, mSeriesDatum = seriesDatum, mYValue = yValue,
             mYKey = yKey, mPoint = \<lparr>px = x, py = y\<rparr>,
             mFill = (if fills s = [] then None else Some (fills s ! (j mod length (fills s)))),
             mStroke = (if strokes s = [] then None
                        else Some (strokes s ! (j mod length (strokes s))))\<rparr>;
          labelText = labelTextOf toFixed2 (labelFormatter s) yValue;
          labelDatum =
            \<lparr>lIndex = i, lItemId = yKey, lPoint = \<lparr>px = x, py = y\<rparr>,
             lLabel = (if labelText = [] then None else Some labelText)\<rparr>;
          sd = selData st;
          areaDatum = (case js_get (areaSelectionData sd) j of
                         Some d \<Rightarrow> d
                       | None \<Rightarrow> \<lparr>itemId = yKey, points = []\<rparr>);
          areaPoints = js_set (js_set (points areaDatum) i \<lparr>px = x, py = y\<rparr>) (lastIndex - i)
                         \<lparr>px = x, py = js_add (convert yScale prev) yOffset\<rparr>;
          sd' = \<lparr>areaSelectionData =
                   js_set (areaSelectionData sd) j (areaDatum\<lparr>points := areaPoints\<rparr>),
                 newMarkerSelectionData = newMarkerSelectionData sd @ [markerDatum],
                 labelSelectionData = labelSelectionData sd @ [labelDatum]\<rparr>
      in if js_lt curr (Num 0)
         then st\<lparr>prevMin := js_add (prevMin st) curr, selData := sd'\<rparr>
         else st\<lparr>prevMax := js_add (prevMax st) curr, selData := sd'\<rparr>)"

text \<open>
  The outer callback: row \<open>i\<close> with category \<open>xDatum\<close>. \<open>yData[i]\<close> must exist for its
  \<open>forEach\<close>, and \<open>data[i]\<close> for the first read of a value.
\<close>

definition stackRow ::
  "series \<Rightarrow> (real \<Rightarrow> string) \<Rightarrow> jsval option scale \<Rightarrow> jsnum scale \<Rightarrow> datum list
     \<Rightarrow> selectionData \<Rightarrow> jsval option \<times> nat \<Rightarrow> error + selectionData" where
  "stackRow s toFixed2 xScale yScale rows sd xi =
     (let xDatum = fst xi; i = snd xi;
          lastIndex = length (xData s) * 2 - 1
      in if length (yData s) \<le> i then Inl TypeError
         else
           let yDatum = yData s ! i;
               x = js_add (convert xScale xDatum) (halfBandwidth xScale)
           in if yDatum = [] then Inr sd
              else if length rows \<le> i then Inl TypeError
              else Inr (selData
                     (foldl (stackValue s toFixed2 yScale (halfBandwidth yScale) lastIndex i (rows ! i) x)
                        \<lparr>prevMin = Num 0, prevMax = Num 0, selData = sd\<rparr>
                        (zip yDatum [0..<length yDatum]))))"

definition generateSelectionData :: "(real \<Rightarrow> string) \<Rightarrow> series \<Rightarrow> error + selectionData option" where
  "generateSelectionData toFixed2 s =
     (case sdata s of
        None \<Rightarrow> Inr None
      | Some rows \<Rightarrow>
          (case xAxis s of
             None \<Rightarrow> Inl TypeError
           | Some xScale \<Rightarrow>
               (case yAxis s of
                  None \<Rightarrow> Inl TypeError
                | Some yScale \<Rightarrow>
                    (case forEachE (stackRow s toFixed2 xScale yScale rows)
                            \<lparr>areaSelectionData = [], newMarkerSelectionData = [],
                             labelSelectionData = []\<rparr>
                            (zip (xData s) [0..<length (xData s)]) of
                       Inl e \<Rightarrow> Inl e
                     | Inr sd \<Rightarrow> Inr (Some sd)))))"

text \<open>
  Modelled from the spec: \<open>Selection.setData\<close>, \<open>exit.remove\<close>, \<open>enter.append\<close> and
  \<open>merge\<close> of the scene graph are not among the sources. The spec matches the previous
  node list and the new datum list by position: nodes up to the new length are reused,
  nodes beyond it are removed, missing trailing nodes are created.
\<close>

definition reconcile :: "('d \<Rightarrow> 'n) \<Rightarrow> ('d \<Rightarrow> 'n \<Rightarrow> 'n) \<Rightarrow> 'n list \<Rightarrow> 'd list \<Rightarrow> 'n list" where
  "reconcile create setDatum nodes ds =
     map (\<lambda>(d, n). setDatum d n) (zip ds nodes) @ map create (drop (length nodes) ds)"

definition newPathNode :: "areaSelectionDatum \<Rightarrow> pathNode" where
  "newPathNode d = \<lparr>pnDatum = d, pnVisible = True, pnPath = []\<rparr>"

definition newMarkerNode :: "markerSelectionDatum \<Rightarrow> markerNode" where
  "newMarkerNode d = \<lparr>mnDatum = d, mnTranslation = \<lparr>px = Num 0, py = Num 0\<rparr>, mnVisible = True\<rparr>"

definition newTextNode :: "labelSelectionDatum \<Rightarrow> textNode" where
  "newTextNode d =
     \<lparr>tnDatum = d, tnText = None, tnPosition = \<lparr>px = Num 0, py = Num 0\<rparr>, tnVisible = True\<rparr>"

text \<open>The data of a selection are the datums present in the array (holes are skipped).\<close>

definition present :: "'a jsarray \<Rightarrow> 'a list" where
  "present xs = List.map_filter (\<lambda>x. x) xs"

definition updateFillSelection :: "areaSelectionDatum jsarray \<Rightarrow> series \<Rightarrow> series" where
  "updateFillSelection ds s =
     s\<lparr>fillSelection :=
         reconcile newPathNode (\<lambda>d n. n\<lparr>pnDatum := d\<rparr>) (fillSelection s) (present ds)\<rparr>"

definition updateStrokeSelection :: "areaSelectionDatum jsarray \<Rightarrow> series \<Rightarrow> series" where
  "updateStrokeSelection ds s =
     s\<lparr>strokeSelection :=
         reconcile newPathNode (\<lambda>d n. n\<lparr>pnDatum := d\<rparr>) (strokeSelection s) (present ds)\<rparr>"

definition updateMarkerSelection :: "markerSelectionDatum list \<Rightarrow> series \<Rightarrow> series" where
  "updateMarkerSelection ds s =
     s\<lparr>markerSelection :=
         reconcile newMarkerNode (\<lambda>d n. n\<lparr>mnDatum := d\<rparr>) (markerSelection s)
           (if markerEnabled s then ds else [])\<rparr>"

definition updateLabelSelection :: "labelSelectionDatum list \<Rightarrow> series \<Rightarrow> series" where
  "updateLabelSelection ds s =
     s\<lparr>labelSelection :=
         reconcile newTextNode (\<lambda>d n. n\<lparr>tnDatum := d\<rparr>) (labelSelection s)
           (if labelEnabled s then ds else [])\<rparr>"

text \<open>
  Restyling the retained nodes. Of a node the embedding keeps its visibility and its
  geometry; colours, widths and the marker formatter are not modelled.
\<close>

definition itemEnabled :: "series \<Rightarrow> string option \<Rightarrow> bool" where
  "itemEnabled s k = (case k of None \<Rightarrow> False | Some key \<Rightarrow> seriesItemEnabled s key = Some True)"

definition updateFillNodes :: "series \<Rightarrow> series" where
  "updateFillNodes s =
     s\<lparr>fillSelection :=
         map (\<lambda>n. n\<lparr>pnVisible := itemEnabled s (itemId (pnDatum n)),
                     pnPath := present (points (pnDatum n))\<rparr>) (fillSelection s)\<rparr>"

text \<open>
  The stroke runs along the top edge only: it reads \<open>points[i]\<close> for every \<open>i\<close> below
  \<open>data.length\<close>, and destructuring a missing point throws.
\<close>

fun topEdge :: "nat \<Rightarrow> point jsarray \<Rightarrow> error + point list" where
  "topEdge 0 ps = Inr []"
| "topEdge (Suc n) [] = Inl TypeError"
| "topEdge (Suc n) (None # ps) = Inl TypeError"
| "topEdge (Suc n) (Some p # ps) =
     (case topEdge n ps of Inl e \<Rightarrow> Inl e | Inr qs \<Rightarrow> Inr (p # qs))"

definition updateStrokeNode :: "series \<Rightarrow> nat \<Rightarrow> pathNode list \<Rightarrow> pathNode \<Rightarrow> error + pathNode list" where
  "updateStrokeNode s n done node =
     (case topEdge n (points (pnDatum node)) of
        Inl e \<Rightarrow> Inl e
      | Inr path \<Rightarrow>
          Inr (done @ [node\<lparr>pnVisible := itemEnabled s (itemId (pnDatum node)),
                             pnPath := path\<rparr>]))"

definition updateStrokeNodes :: "series \<Rightarrow> error + series" where
  "updateStrokeNodes s =
     (case sdata s of
        None \<Rightarrow> Inr s
      | Some rows \<Rightarrow>
          (case forEachE (updateStrokeNode s (length rows)) [] (strokeSelection s) of
             Inl e \<Rightarrow> Inl e
           | Inr nodes \<Rightarrow> Inr (s\<lparr>strokeSelection := nodes\<rparr>)))"

definition updateMarkerNodes :: "jsnum \<Rightarrow> series \<Rightarrow> series" where
  "updateMarkerNodes markerSize s =
     (case schart s of
        None \<Rightarrow> s
      | Some c \<Rightarrow>
          s\<lparr>markerSelection :=
              map (\<lambda>n. n\<lparr>mnTranslation := mPoint (mnDatum n),
                          mnVisible := (markerEnabled s \<and> js_lt (Num 0) markerSize
                                        \<and> itemEnabled s (mYKey (mnDatum n)))\<rparr>)
                  (markerSelection s)\<rparr>)"

definition updateLabelNodes :: "series \<Rightarrow> series" where
  "updateLabelNodes s =
     (case schart s of
        None \<Rightarrow> s
      | Some c \<Rightarrow>
          s\<lparr>labelSelection :=
              map (\<lambda>n. case lLabel (tnDatum n) of
                          Some t \<Rightarrow>
                            if labelEnabled s
                            then n\<lparr>tnText := Some t,
                                   tnPosition := \<lparr>px = px (lPoint (tnDatum n)),
                                                  py = js_add (py (lPoint (tnDatum n)))
                                                         (Num (- 10))\<rparr>,
                                   tnVisible := True\<rparr>
                            else n\<lparr>tnVisible := False\<rparr>
                        | None \<Rightarrow> n\<lparr>tnVisible := False\<rparr>)
                  (labelSelection s)\<rparr>)"

definition updateSelectionNodes :: "jsnum \<Rightarrow> series \<Rightarrow> error + series" where
  "updateSelectionNodes markerSize s =
     (case updateStrokeNodes (updateFillNodes s) of
        Inl e \<Rightarrow> Inl e
      | Inr s' \<Rightarrow> Inr (updateLabelNodes (updateMarkerNodes markerSize s')))"

text \<open>
  \<open>update\<close>. The group's visibility is assigned first; the readiness check follows.
  \<open>toFixed2\<close> and the marker's size are parameters.
\<close>

definition notReady :: "series \<Rightarrow> bool" where
  "notReady s =
     (schart s = None
      \<or> (case schart s of None \<Rightarrow> True | Some c \<Rightarrow> layoutPending c \<or> dataPending c)
      \<or> \<not> visible s \<or> xAxis s = None \<or> yAxis s = None \<or> xData s = [] \<or> yData s = [])"

definition update :: "(real \<Rightarrow> string) \<Rightarrow> jsnum \<Rightarrow> series \<Rightarrow> error + series" where
  "update toFixed2 markerSize s =
     (let s1 = s\<lparr>groupVisible := (visible s \<and> (xData s \<noteq> [] \<and> yData s \<noteq> []))\<rparr>
      in if notReady s1 then Inr s1
         else
           (case generateSelectionData toFixed2 s1 of
              Inl e \<Rightarrow> Inl e
            | Inr None \<Rightarrow> Inr s1
            | Inr (Some sd) \<Rightarrow>
                (case updateSelectionNodes markerSize
                        (updateLabelSelection (labelSelectionData sd)
                          (updateMarkerSelection (newMarkerSelectionData sd)
                            (updateStrokeSelection (areaSelectionData sd)
                              (updateFillSelection (areaSelectionData sd) s1)))) of
                   Inl e \<Rightarrow> Inl e
                 | Inr s2 \<Rightarrow> Inr (s2\<lparr>markerSelectionData := newMarkerSelectionData sd\<rparr>))))"

section \<open>Status bar: the range aggregator\<close>

datatype floating = FloatingTop | FloatingBottom

record gridRow =
  rowIndex :: nat
  floating :: "floating option"

record gridCell =
  cellRowIndex :: nat
  cellFloating :: "floating option"
  column :: string

record cellRange =
  rangeStart :: gridCell
  rangeEnd :: gridCell
  columns :: "string list"

definition getGridRow :: "gridCell \<Rightarrow> gridRow" where
  "getGridRow c = \<lparr>rowIndex = cellRowIndex c, floating = cellFloating c\<rparr>"

definition getGridCell :: "gridRow \<Rightarrow> string \<Rightarrow> gridCell" where
  "getGridCell r col = \<lparr>cellRowIndex = rowIndex r, cellFloating = floating r, column = col\<rparr>"

text \<open>
  Modelled from the spec: \<open>GridCell.createId\<close> is not among the sources. The spec asks
  for "a unique cell identity from (row, column)": the identity is the cell itself.
\<close>

definition createId :: "gridCell \<Rightarrow> gridCell" where
  "createId c = c"

text \<open>
  Modelled from the spec: \<open>GridRow.equals\<close> and \<open>GridRow.before\<close> are not among the
  sources. Rows form one logical sequence, pinned-top, then the main body, then
  pinned-bottom; a row precedes another when its grouping comes first, or within the
  same grouping its position is smaller.
\<close>

definition equals :: "gridRow \<Rightarrow> gridRow \<Rightarrow> bool" where
  "equals a b = (rowIndex a = rowIndex b \<and> floating a = floating b)"

fun grouping :: "floating option \<Rightarrow> nat" where
  "grouping (Some FloatingTop) = 0"
| "grouping None = 1"
| "grouping (Some FloatingBottom) = 2"

definition before :: "gridRow \<Rightarrow> gridRow \<Rightarrow> bool" where
  "before a b =
     (grouping (floating a) < grouping (floating b)
      \<or> (grouping (floating a) = grouping (floating b) \<and> rowIndex a < rowIndex b))"

text \<open>
  The collaborators of the status bar: the pinned rows, the row model, the value
  service, the "next row" capability of the navigation service (\<open>None\<close> is \<open>null\<close>) and
  JavaScript's conversion of a string to a number.
\<close>

record grid =
  floatingTopRowData :: "datum list"
  floatingBottomRowData :: "datum list"
  getRow :: "nat \<Rightarrow> datum option"
  getValue :: "string \<Rightarrow> datum option \<Rightarrow> jsval option"
  getRowBelow :: "gridRow \<Rightarrow> gridRow option"
  toNumber :: "string \<Rightarrow> jsnum"

definition getRowNode :: "grid \<Rightarrow> gridRow \<Rightarrow> datum option" where
  "getRowNode g gridRow =
     (case floating gridRow of
        Some FloatingTop \<Rightarrow>
          (if rowIndex gridRow < length (floatingTopRowData g)
           then Some (floatingTopRowData g ! rowIndex gridRow) else None)
      | Some FloatingBottom \<Rightarrow>
          (if rowIndex gridRow < length (floatingBottomRowData g)
           then Some (floatingBottomRowData g ! rowIndex gridRow) else None)
      | None \<Rightarrow> getRow g (rowIndex gridRow))"

record aggregation =
  aggSum :: jsnum
  aggCount :: nat
  aggMin :: jsnum
  aggMax :: jsnum
  cellsSoFar :: "gridCell \<rightharpoonup> bool"

definition initialAggregation :: aggregation where
  "initialAggregation =
     \<lparr>aggSum = Num 0, aggCount = 0, aggMin = Num 0, aggMax = Num 0, cellsSoFar = Map.empty\<rparr>"

text \<open>What a cell adds once it is known to be new: the callback after its dedup check.\<close>

definition addCell :: "grid \<Rightarrow> gridRow \<Rightarrow> string \<Rightarrow> aggregation \<Rightarrow> aggregation" where
  "addCell g currentRow col acc =
     (let rowNode = getRowNode g currentRow;
          value0 = getValue g col rowNode;
          value = (case value0 of Some (JStr t) \<Rightarrow> Some (JNum (toNumber g t)) | v \<Rightarrow> v);
          acc1 = (case value of
                    Some (JNum v) \<Rightarrow>
                      if v \<noteq> NaN
                      then let a1 = acc\<lparr>aggSum := js_add (aggSum acc) v\<rparr>;
                               a2 = (if js_lt (aggMax a1) v then a1\<lparr>aggMax := v\<rparr> else a1)
                           in if js_lt v (aggMin a2) then a2\<lparr>aggMin := v\<rparr> else a2
                      else acc
                  | _ \<Rightarrow> acc)
      in acc1\<lparr>aggCount := aggCount acc1 + 1\<rparr>)"

text \<open>The callback of \<open>cellRange.columns.forEach\<close>.\<close>

definition visitCell :: "grid \<Rightarrow> gridRow \<Rightarrow> aggregation \<Rightarrow> string \<Rightarrow> aggregation" where
  "visitCell g currentRow acc col =
     (let cellId = createId (getGridCell currentRow col)
      in if cellsSoFar acc cellId = Some True then acc
         else addCell g currentRow col (acc\<lparr>cellsSoFar := (cellsSoFar acc)(cellId \<mapsto> True)\<rparr>))"

text \<open>
  The \<open>while (true)\<close> loop over the rows of one range. It ends when the current row
  equals the last row; if the navigation service runs out of rows first, the next use of
  the current row throws. The loop need not end, so it carries fuel: \<open>None\<close> is a loop
  that has not ended within \<open>fuel\<close> rows.
\<close>

fun walkRows ::
  "nat \<Rightarrow> grid \<Rightarrow> string list \<Rightarrow> gridRow \<Rightarrow> gridRow \<Rightarrow> aggregation
     \<Rightarrow> (error + aggregation) option" where
  "walkRows 0 g cols lastRow currentRow acc = None"
| "walkRows (Suc fuel) g cols lastRow currentRow acc =
     (let acc' = foldl (visitCell g currentRow) acc cols
      in if equals currentRow lastRow then Some (Inr acc')
         else (case getRowBelow g currentRow of
                 None \<Rightarrow> Some (Inl TypeError)
               | Some below \<Rightarrow> walkRows fuel g cols lastRow below acc'))"

definition aggregateRange ::
  "nat \<Rightarrow> grid \<Rightarrow> cellRange \<Rightarrow> aggregation \<Rightarrow> (error + aggregation) option" where
  "aggregateRange fuel g cellRange acc =
     (let startRow = getGridRow (rangeStart cellRange);
          endRow = getGridRow (rangeEnd cellRange);
          startRowIsFirst = before startRow endRow;
          currentRow = (if startRowIsFirst then startRow else endRow);
          lastRow = (if startRowIsFirst then endRow else startRow)
      in walkRows fuel g (columns cellRange) lastRow currentRow acc)"

fun aggregateRanges ::
  "nat \<Rightarrow> grid \<Rightarrow> cellRange list \<Rightarrow> aggregation \<Rightarrow> (error + aggregation) option" where
  "aggregateRanges fuel g [] acc = Some (Inr acc)"
| "aggregateRanges fuel g (cellRange # rest) acc =
     (case aggregateRange fuel g cellRange acc of
        None \<Rightarrow> None
      | Some (Inl e) \<Rightarrow> Some (Inl e)
      | Some (Inr acc') \<Rightarrow> aggregateRanges fuel g rest acc')"

record statusItem =
  itemValue :: "jsnum option"
  itemVisible :: bool

record statusBar =
  statusItemSum :: statusItem
  statusItemCount :: statusItem
  statusItemMin :: statusItem
  statusItemMax :: statusItem
  statusItemAvg :: statusItem

definition setValue :: "jsnum \<Rightarrow> statusItem \<Rightarrow> statusItem" where
  "setValue v item = item\<lparr>itemValue := Some v\<rparr>"

definition setVisible :: "bool \<Rightarrow> statusItem \<Rightarrow> statusItem" where
  "setVisible b item = item\<lparr>itemVisible := b\<rparr>"

definition forEachStatusItem :: "(statusItem \<Rightarrow> statusItem) \<Rightarrow> statusBar \<Rightarrow> statusBar" where
  "forEachStatusItem callback bar =
     \<lparr>statusItemSum = callback (statusItemSum bar),
      statusItemCount = callback (statusItemCount bar),
      statusItemMin = callback (statusItemMin bar),
      statusItemMax = callback (statusItemMax bar),
      statusItemAvg = callback (statusItemAvg bar)\<rparr>"

text \<open>The end of \<open>onRangeSelectionChanged\<close>: the result is shown only if \<open>count > 1\<close>.\<close>

definition showResult :: "aggregation \<Rightarrow> statusBar \<Rightarrow> statusBar" where
  "showResult acc bar =
     (let gotResult = (1 < aggCount acc);
          bar1 = (if gotResult
                  then bar\<lparr>statusItemSum := setValue (aggSum acc) (statusItemSum bar),
                           statusItemCount :=
                             setValue (Num (real (aggCount acc))) (statusItemCount bar),
                           statusItemMin := setValue (aggMin acc) (statusItemMin bar),
                           statusItemMax := setValue (aggMax acc) (statusItemMax bar),
                           statusItemAvg :=
                             setValue (js_div (aggSum acc) (Num (real (aggCount acc))))
                               (statusItemAvg bar)\<rparr>
                  else bar)
      in forEachStatusItem (setVisible gotResult) bar1)"

text \<open>
  \<open>onRangeSelectionChanged\<close>: \<open>cellRanges\<close> is what the range controller returns
  (\<open>None\<close> when it is missing).
\<close>

definition onRangeSelectionChanged ::
  "nat \<Rightarrow> grid \<Rightarrow> cellRange list option \<Rightarrow> statusBar \<Rightarrow> (error + statusBar) option" where
  "onRangeSelectionChanged fuel g cellRanges bar =
     (case aggregateRanges fuel g (case cellRanges of None \<Rightarrow> [] | Some rs \<Rightarrow> rs)
             initialAggregation of
        None \<Rightarrow> None
      | Some (Inl e) \<Rightarrow> Some (Inl e)
      | Some (Inr acc) \<Rightarrow> Some (Inr (showResult acc bar)))"

text \<open>
  The cells a pass visits, in visiting order: the same loops, collecting the
  (row, column) pairs instead of aggregating.
\<close>

fun rowsWalked :: "nat \<Rightarrow> grid \<Rightarrow> gridRow \<Rightarrow> gridRow \<Rightarrow> (error + gridRow list) option" where
  "rowsWalked 0 g lastRow currentRow = None"
| "rowsWalked (Suc fuel) g lastRow currentRow =
     (if equals currentRow lastRow then Some (Inr [currentRow])
      else (case getRowBelow g currentRow of
              None \<Rightarrow> Some (Inl TypeError)
            | Some below \<Rightarrow>
                (case rowsWalked fuel g lastRow below of
                   None \<Rightarrow> None
                 | Some (Inl e) \<Rightarrow> Some (Inl e)
                 | Some (Inr rs) \<Rightarrow> Some (Inr (currentRow # rs)))))"

definition cellsOfRows :: "string list \<Rightarrow> gridRow list \<Rightarrow> (gridRow \<times> string) list" where
  "cellsOfRows cols rs = concat (map (\<lambda>r. map (\<lambda>c. (r, c)) cols) rs)"

definition cellsOfRange :: "nat \<Rightarrow> grid \<Rightarrow> cellRange \<Rightarrow> (error + (gridRow \<times> string) list) option" where
  "cellsOfRange fuel g cellRange =
     (let startRow = getGridRow (rangeStart cellRange);
          endRow = getGridRow (rangeEnd cellRange);
          startRowIsFirst = before startRow endRow;
          currentRow = (if startRowIsFirst then startRow else endRow);
          lastRow = (if startRowIsFirst then endRow else startRow)
      in (case rowsWalked fuel g lastRow currentRow of
            None \<Rightarrow> None
          | Some (Inl e) \<Rightarrow> Some (Inl e)
          | Some (Inr rs) \<Rightarrow> Some (Inr (cellsOfRows (columns cellRange) rs))))"

fun cellsOfRanges :: "nat \<Rightarrow> grid \<Rightarrow> cellRange list \<Rightarrow> (error + (gridRow \<times> string) list) option" where
  "cellsOfRanges fuel g [] = Some (Inr [])"
| "cellsOfRanges fuel g (cellRange # rest) =
     (case cellsOfRange fuel g cellRange of
        None \<Rightarrow> None
      | Some (Inl e) \<Rightarrow> Some (Inl e)
      | Some (Inr cs) \<Rightarrow>
          (case cellsOfRanges fuel g rest of
             None \<Rightarrow> None
           | Some (Inl e) \<Rightarrow> Some (Inl e)
           | Some (Inr ds) \<Rightarrow> Some (Inr (cs @ ds))))"

text \<open>A visiting order with every repeated visit removed (the first visit stays).\<close>

fun unseen :: "'a set \<Rightarrow> 'a list \<Rightarrow> 'a list" where
  "unseen seen [] = []"
| "unseen seen (x # xs) = (if x \<in> seen then unseen seen xs else x # unseen (insert x seen) xs)"

definition firstVisits :: "'a list \<Rightarrow> 'a list" where
  "firstVisits xs = unseen {} xs"

text \<open>Aggregating a visiting order as the pass does, cell by cell.\<close>

definition visitAll :: "grid \<Rightarrow> aggregation \<Rightarrow> (gridRow \<times> string) list \<Rightarrow> aggregation" where
  "visitAll g acc cs = foldl (\<lambda>a rc. visitCell g (fst rc) a (snd rc)) acc cs"

text \<open>
  Modelled from the spec: the navigation service is not among the sources. In a grid
  with \<open>nTop\<close> pinned-top rows, \<open>nBody\<close> body rows and \<open>nBottom\<close> pinned-bottom rows the
  row below is the next row of the one logical sequence, and there is none below the
  last.
\<close>

definition rowBelow :: "nat \<Rightarrow> nat \<Rightarrow> nat \<Rightarrow> gridRow \<Rightarrow> gridRow option" where
  "rowBelow nTop nBody nBottom r =
     (let firstBottom = (if 0 < nBottom
                         then Some \<lparr>rowIndex = 0, floating = Some FloatingBottom\<rparr> else None);
          firstBody = (if 0 < nBody then Some \<lparr>rowIndex = 0, floating = None\<rparr>
                       else firstBottom)
      in case floating r of
           Some FloatingTop \<Rightarrow>
             if rowIndex r + 1 < nTop then Some (r\<lparr>rowIndex := rowIndex r + 1\<rparr>) else firstBody
         | None \<Rightarrow>
             if rowIndex r + 1 < nBody then Some (r\<lparr>rowIndex := rowIndex r + 1\<rparr>)
             else firstBottom
         | Some FloatingBottom \<Rightarrow>
             if rowIndex r + 1 < nBottom then Some (r\<lparr>rowIndex := rowIndex r + 1\<rparr>) else None)"

text \<open>
  The scenario of the specification: three body rows holding 1, 2 and 3 in one column,
  and a range whose end row precedes its start row. No cell holds a string, so the
  conversion of strings is never called.
\<close>

definition exampleGrid :: grid where
  "exampleGrid =
     \<lparr>floatingTopRowData = [], floatingBottomRowData = [],
      getRow = (\<lambda>i. if i < 3 then Some [''v'' \<mapsto> JNum (Num (real (i + 1)))] else None),
      getValue = (\<lambda>col node. case node of None \<Rightarrow> None | Some d \<Rightarrow> d col),
      getRowBelow = rowBelow 0 3 0,
      toNumber = (\<lambda>t. NaN)\<rparr>"

definition reversedRange :: cellRange where
  "reversedRange =
     \<lparr>rangeStart = \<lparr>cellRowIndex = 2, cellFloating = None, column = ''v''\<rparr>,
      rangeEnd = \<lparr>cellRowIndex = 0, cellFloating = None, column = ''v''\<rparr>,
      columns = [''v'']\<rparr>"

definition emptyStatusBar :: statusBar where
  "emptyStatusBar =
     (let hidden = \<lparr>itemValue = None, itemVisible = False\<rparr>
      in \<lparr>statusItemSum = hidden, statusItemCount = hidden, statusItemMin = hidden,
          statusItemMax = hidden, statusItemAvg = hidden\<rparr>)"

text \<open>Normalization is active when the stored target is truthy and finite.\<close>

definition normalizationActive :: "series \<Rightarrow> bool" where
  "normalizationActive s =
     (case normalizedTo s of None \<Rightarrow> False | Some n \<Rightarrow> js_truthy n \<and> js_isFinite n)"

text \<open>A series as its constructor leaves it, and the example rows of the specification.\<close>

definition newSeries :: series where
  "newSeries =
     \<lparr>xKey = [], yKeys = [], sdata = None, seriesItemEnabled = Map.empty,
      normalizedTo = None, xData = [], yData = [], yDomain = (Num 0, Num 0),
      visible = True, schart = None, xAxis = None, yAxis = None,
      markerEnabled = False, labelEnabled = False, labelFormatter = None,
      fills = [''#c16068'', ''#a2bf8a'', ''#ebcc87'', ''#80a0c3'', ''#b58dae'', ''#85c0d1''],
      strokes = [''#874349'', ''#718661'', ''#a48f5f'', ''#5a7088'', ''#7f637a'', ''#5d8692''],
      groupVisible = True, fillSelection = [], strokeSelection = [],
      markerSelection = [], labelSelection = [], markerSelectionData = [], fired = []\<rparr>"

definition exampleRows :: "datum list" where
  "exampleRows =
     [[''x'' \<mapsto> JStr ''Jan'', ''a'' \<mapsto> JNum (Num 5), ''b'' \<mapsto> JNum (Num (- 3))],
      [''x'' \<mapsto> JStr ''Feb'', ''a'' \<mapsto> JNum (Num 10), ''b'' \<mapsto> JNum (Num (- 15))]]"

definition exampleSeries :: series where
  "exampleSeries =
     newSeries\<lparr>xKey := ''x'', yKeys := [''a'', ''b''], sdata := Some exampleRows,
               seriesItemEnabled := [''a'' \<mapsto> True, ''b'' \<mapsto> True]\<rparr>"

section \<open>Notions used in the statements and proofs\<close>

text \<open>The real value of a finite number (used only on finite numbers).\<close>

fun realOf :: "jsnum \<Rightarrow> real" where
  "realOf (Num r) = r"
| "realOf _ = 0"

text \<open>
  The sum of the negative entries and the sum of the positive entries of a row, and
  \<open>Math.max\<close>.
\<close>

definition negativeSum :: "jsnum list \<Rightarrow> jsnum" where
  "negativeSum row = foldl js_add (Num 0) (filter (\<lambda>y. js_lt y (Num 0)) row)"

definition positiveSum :: "jsnum list \<Rightarrow> jsnum" where
  "positiveSum row = foldl js_add (Num 0) (filter (\<lambda>y. js_lt (Num 0) y) row)"

definition js_max :: "jsnum \<Rightarrow> jsnum \<Rightarrow> jsnum" where
  "js_max a b = (if a = NaN \<or> b = NaN then NaN else if js_lt a b then b else a)"

text \<open>
  Further example series: a row \<open>{a: 4, b: -1}\<close> normalized to 10, and a row
  \<open>{a: 0, b: -5}\<close> normalized to 100.
\<close>

definition normalizedRows :: "datum list" where
  "normalizedRows = [[''x'' \<mapsto> JStr ''Jan'', ''a'' \<mapsto> JNum (Num 4), ''b'' \<mapsto> JNum (Num (- 1))]]"

definition normalizedSeries :: series where
  "normalizedSeries = exampleSeries\<lparr>sdata := Some normalizedRows, normalizedTo := Some (Num 10)\<rparr>"

definition zeroRows :: "datum list" where
  "zeroRows = [[''x'' \<mapsto> JStr ''Jan'', ''a'' \<mapsto> JNum (Num 0), ''b'' \<mapsto> JNum (Num (- 5))]]"

definition zeroSeries :: series where
  "zeroSeries = exampleSeries\<lparr>sdata := Some zeroRows, normalizedTo := Some (Num 100)\<rparr>"





text \<open>A status bar that shows the result of an earlier pass.\<close>

definition shownStatusBar :: statusBar where
  "shownStatusBar =
     \<lparr>statusItemSum = \<lparr>itemValue = Some (Num 6), itemVisible = True\<rparr>,
      statusItemCount = \<lparr>itemValue = Some (Num 3), itemVisible = True\<rparr>,
      statusItemMin = \<lparr>itemValue = Some (Num 0), itemVisible = True\<rparr>,
      statusItemMax = \<lparr>itemValue = Some (Num 3), itemVisible = True\<rparr>,
      statusItemAvg = \<lparr>itemValue = Some (Num 2), itemVisible = True\<rparr>\<rparr>"

text \<open>
  Two invariants of a pass: the dedup set marks exactly the cells of \<open>seen\<close>, and the
  minimum and maximum stay on their side of the seed 0.
\<close>

definition marked :: "aggregation \<Rightarrow> (gridRow \<times> string) set \<Rightarrow> bool" where
  "marked acc seen =
     (\<forall>r c. (cellsSoFar acc (createId (getGridCell r c)) = Some True) = ((r, c) \<in> seen))"

definition seeded :: "aggregation \<Rightarrow> bool" where
  "seeded acc =
     (\<not> js_lt (Num 0) (aggMin acc) \<and> aggMin acc \<noteq> NaN
      \<and> \<not> js_lt (aggMax acc) (Num 0) \<and> aggMax acc \<noteq> NaN)"

text \<open>Two overlapping ranges (rows 0 to 1 and rows 1 to 2) and a range of one cell.\<close>

definition upperRange :: cellRange where
  "upperRange =
     \<lparr>rangeStart = \<lparr>cellRowIndex = 0, cellFloating = None, column = ''v''\<rparr>,
      rangeEnd = \<lparr>cellRowIndex = 1, cellFloating = None, column = ''v''\<rparr>,
      columns = [''v'']\<rparr>"

definition lowerRange :: cellRange where
  "lowerRange =
     \<lparr>rangeStart = \<lparr>cellRowIndex = 1, cellFloating = None, column = ''v''\<rparr>,
      rangeEnd = \<lparr>cellRowIndex = 2, cellFloating = None, column = ''v''\<rparr>,
      columns = [''v'']\<rparr>"

definition singleCell :: cellRange where
  "singleCell =
     \<lparr>rangeStart = \<lparr>cellRowIndex = 1, cellFloating = None, column = ''v''\<rparr>,
      rangeEnd = \<lparr>cellRowIndex = 1, cellFloating = None, column = ''v''\<rparr>,
      columns = [''v'']\<rparr>"

text \<open>
  Invariants of \<open>generateSelectionData\<close>: a polygon is closed at row \<open>i\<close> when its
  top point \<open>i\<close> and its bottom point \<open>2n - 1 - i\<close> exist and share their x; \<open>colInv\<close>
  holds inside row \<open>i\<close> after \<open>j\<close> values, \<open>rowInv\<close> after \<open>k\<close> rows.
\<close>

definition closedAt :: "nat \<Rightarrow> areaSelectionDatum \<Rightarrow> nat \<Rightarrow> bool" where
  "closedAt n d i =
     (\<exists>p q. js_get (points d) i = Some p \<and> js_get (points d) (2 * n - 1 - i) = Some q
            \<and> px p = px q)"

definition good :: "nat \<Rightarrow> nat \<Rightarrow> areaSelectionDatum \<Rightarrow> bool" where
  "good n k d = (length (points d) = 2 * n \<and> (\<forall>i<k. closedAt n d i))"

definition colInv :: "nat \<Rightarrow> nat \<Rightarrow> nat \<Rightarrow> nat \<Rightarrow> areaSelectionDatum jsarray \<Rightarrow> bool" where
  "colInv n m i j area =
     (if i = 0
      then length area = j \<and> (\<forall>j'<j. \<exists>d. js_get area j' = Some d \<and> good n 1 d)
      else length area = m
           \<and> (\<forall>j'<m. \<exists>d. js_get area j' = Some d \<and> good n (if j' < j then Suc i else i) d))"

definition rowInv :: "nat \<Rightarrow> nat \<Rightarrow> nat \<Rightarrow> areaSelectionDatum jsarray \<Rightarrow> bool" where
  "rowInv n m k area =
     (if k = 0 then area = []
      else length area = m \<and> (\<forall>j<m. \<exists>d. js_get area j = Some d \<and> good n k d))"

text \<open>
  The example series after \<open>processData\<close>, attached to a chart with a band scale for
  the categories and a linear scale for the values; and the same series made invisible
  while it still retains a node.
\<close>

definition exampleXScale :: "jsval option scale" where
  "exampleXScale =
     \<lparr>convert = (\<lambda>v. if v = Some (JStr ''Jan'') then Num 0 else Num 100),
      bandwidth = Some (Num 100)\<rparr>"

definition exampleYScale :: "jsnum scale" where
  "exampleYScale = \<lparr>convert = (\<lambda>v. js_mul v (Num (- 10))), bandwidth = None\<rparr>"

definition readySeries :: series where
  "readySeries =
     (snd (processData (\<lambda>e. e) exampleSeries))
       \<lparr>schart := Some \<lparr>layoutPending = False, dataPending = False\<rparr>,
        xAxis := Some exampleXScale, yAxis := Some exampleYScale\<rparr>"

definition hiddenSeries :: series where
  "hiddenSeries =
     readySeries\<lparr>visible := False, groupVisible := True,
                 fillSelection := [\<lparr>pnDatum = \<lparr>itemId = Some ''a'', points = []\<rparr>,
                                    pnVisible = True, pnPath = []\<rparr>]\<rparr>"

section \<open>Properties of the data processor\<close>

lemma js_truthy_neg: "js_truthy (js_neg v) = js_truthy v"
  by (cases v) auto

lemma js_abs_neg: "js_abs (js_neg v) = js_abs v"
  by (cases v) auto

text \<open>
  C4 (as amended). \<open>processData\<close> never reports a failure: it returns \<open>true\<close> on
  every series. With an empty category key, an empty value-key list or no data it
  processes an empty row list: \<open>xData\<close> and \<open>yData\<close> are empty and the extent handed
  to \<open>fixNumericExtent\<close> is \<open>[0, 1]\<close>, or \<open>[0, T]\<close> when normalization to \<open>T\<close> is
  active. Otherwise \<open>xData\<close> and \<open>yData\<close> have one entry per row and the extent is
  \<open>fixNumericExtent\<close> of a pair.
\<close>

theorem processData_always_succeeds:
  "fst (processData fixNumericExtent s) = True
   \<and> (let s' = snd (processData fixNumericExtent s)
      in if xKey s = [] \<or> yKeys s = [] \<or> sdata s = None
         then xData s' = [] \<and> yData s' = []
              \<and> yDomain s' = fixNumericExtent
                    (Num 0, if normalizationActive s then the (normalizedTo s) else Num 1)
         else length (xData s') = length (the (sdata s))
              \<and> length (yData s') = length (the (sdata s))
              \<and> (\<exists>yMin yMax. yDomain s' = fixNumericExtent (yMin, yMax)))"
proof -
  have 1: "fst (processData fixNumericExtent s) = True"
    by (simp add: processData_def Let_def)
  have 2: "xData (snd (processData fixNumericExtent s)) = []
        \<and> yData (snd (processData fixNumericExtent s)) = []
        \<and> yDomain (snd (processData fixNumericExtent s)) = fixNumericExtent
                    (Num 0, if normalizationActive s then the (normalizedTo s) else Num 1)"
    if "xKey s = [] \<or> yKeys s = [] \<or> sdata s = None"
    using that
    by (cases "normalizedTo s")
       (auto simp: processData_def Let_def fireEvent_def findLargestMinMax_def
                   normalizationActive_def
             split: option.splits)
  have 3: "length (xData (snd (processData fixNumericExtent s))) = length (the (sdata s))
        \<and> length (yData (snd (processData fixNumericExtent s))) = length (the (sdata s))
        \<and> (\<exists>yMin yMax. yDomain (snd (processData fixNumericExtent s))
                          = fixNumericExtent (yMin, yMax))"
    if "\<not> (xKey s = [] \<or> yKeys s = [] \<or> sdata s = None)"
    using that
    by (auto simp: processData_def Let_def fireEvent_def)
  show ?thesis using 1 2 3 by (simp add: Let_def)
qed

theorem processData_always_succeeds_witness:
  "fst (processData (\<lambda>e. e) exampleSeries) = True
   \<and> length (xData (snd (processData (\<lambda>e. e) exampleSeries))) = 2
   \<and> length (yData (snd (processData (\<lambda>e. e) exampleSeries))) = 2
   \<and> xData (snd (processData (\<lambda>e. e) (exampleSeries\<lparr>xKey := []\<rparr>))) = []
   \<and> yDomain (snd (processData (\<lambda>e. e) (exampleSeries\<lparr>xKey := []\<rparr>))) = (Num 0, Num 1)"
  using processData_always_succeeds [of "\<lambda>e. e" exampleSeries]
        processData_always_succeeds [of "\<lambda>e. e" "exampleSeries\<lparr>xKey := []\<rparr>"]
  by (simp add: Let_def exampleSeries_def newSeries_def exampleRows_def normalizationActive_def)

text \<open>
  C4 as stated fails: with an empty category key the call still returns \<open>true\<close>.
\<close>

theorem processData_empty_key_counterexample:
  "xKey (exampleSeries\<lparr>xKey := []\<rparr>) = []
   \<and> fst (processData (\<lambda>e. e) (exampleSeries\<lparr>xKey := []\<rparr>)) \<noteq> False"
  by (simp add: processData_def Let_def)

text \<open>
  C10. The setter stores the absolute value of a truthy number and \<open>undefined\<close> for
  \<open>0\<close> and for \<open>undefined\<close>; assigning \<open>-v\<close> leaves the series in the same state as
  assigning \<open>v\<close>, so \<open>processData\<close> gives the same \<open>xData\<close>, \<open>yData\<close> and extent.
\<close>

theorem normalizedTo_sign_irrelevant:
  "normalizedTo (set_normalizedTo (Some v) s) = (if js_truthy v then Some (js_abs v) else None)
   \<and> normalizedTo (set_normalizedTo (Some (Num 0)) s) = None
   \<and> normalizedTo (set_normalizedTo None s) = None
   \<and> \<not> normalizationActive (set_normalizedTo (Some (Num 0)) s)
   \<and> set_normalizedTo (Some (js_neg v)) s = set_normalizedTo (Some v) s
   \<and> processData fixNumericExtent (set_normalizedTo (Some (js_neg v)) s)
       = processData fixNumericExtent (set_normalizedTo (Some v) s)"
proof -
  have eq: "set_normalizedTo (Some (js_neg v)) s = set_normalizedTo (Some v) s"
    by (simp add: set_normalizedTo_def js_truthy_neg js_abs_neg)
  have a: "normalizedTo (set_normalizedTo w s) =
     (case w of None \<Rightarrow> None | Some v \<Rightarrow> if js_truthy v then Some (js_abs v) else None)" for w
    by (auto simp: set_normalizedTo_def scheduleData_def Let_def split: option.splits)
  show ?thesis using eq by (simp add: a normalizationActive_def)
qed

theorem normalizedTo_sign_irrelevant_witness:
  "normalizedTo (set_normalizedTo (Some (Num (- 100))) exampleSeries) = Some (Num 100)
   \<and> processData (\<lambda>e. e) (set_normalizedTo (Some (Num (- 100))) exampleSeries)
     = processData (\<lambda>e. e) (set_normalizedTo (Some (Num 100)) exampleSeries)"
  using normalizedTo_sign_irrelevant [of "Num 100" exampleSeries "\<lambda>e. e"]
  by simp

lemma yValues_Num: "v \<in> set (yValues ks en d) \<Longrightarrow> \<exists>r. v = Num r"
  by (auto simp: yValues_def Let_def elim: js_isFinite.elims)

lemma yValues_map_Num: "\<exists>rs. yValues ks en d = map Num rs"
proof -
  have "map (\<lambda>v. Num (realOf v)) (yValues ks en d) = yValues ks en d"
  proof (rule map_idI)
    fix v assume "v \<in> set (yValues ks en d)"
    then obtain r where "v = Num r" using yValues_Num by blast
    then show "Num (realOf v) = v" by simp
  qed
  then have "yValues ks en d = map Num (map realOf (yValues ks en d))"
    by (simp add: comp_def)
  then show ?thesis by blast
qed

lemma foldl_findMinMax:
  "foldl (\<lambda>t v. if js_lt v (Num 0) then t\<lparr>minv := js_add (minv t) v\<rparr>
                   else t\<lparr>maxv := js_add (maxv t) v\<rparr>)
           \<lparr>minv = Num a, maxv = Num b\<rparr> (map Num rs)
   = \<lparr>minv = Num (a + sum_list (filter (\<lambda>r. r < 0) rs)),
      maxv = Num (b + sum_list (filter (\<lambda>r. \<not> r < 0) rs))\<rparr>"
  by (induction rs arbitrary: a b) (auto simp: algebra_simps)

lemma findMinMax_Num:
  "findMinMax (map Num rs)
   = \<lparr>minv = Num (sum_list (filter (\<lambda>r. r < 0) rs)),
      maxv = Num (sum_list (filter (\<lambda>r. \<not> r < 0) rs))\<rparr>"
  unfolding findMinMax_def by (simp add: foldl_findMinMax)

lemma foldl_js_add_Num: "foldl js_add (Num a) (map (\<lambda>r. Num (f r)) rs) = Num (a + sum_list (map f rs))"
  by (induction rs arbitrary: a) (auto simp: algebra_simps)

lemma sum_neg_le: "r \<in> set rs \<Longrightarrow> r < 0 \<Longrightarrow> sum_list (filter (\<lambda>r. r < 0) rs) \<le> (r::real)"
proof (induction rs)
  case Nil then show ?case by simp
next
  case (Cons a rs)
  have nonpos: "sum_list (filter (\<lambda>r. r < 0) rs) \<le> 0"
    by (rule sum_list_nonpos) auto
  show ?case
  proof (cases "r = a")
    case True
    with Cons.prems nonpos show ?thesis by simp
  next
    case False
    with Cons have "sum_list (filter (\<lambda>r. r < 0) rs) \<le> r" by simp
    then show ?thesis by simp
  qed
qed

lemma sum_pos_ge: "r \<in> set rs \<Longrightarrow> \<not> r < 0 \<Longrightarrow> (r::real) \<le> sum_list (filter (\<lambda>r. \<not> r < 0) rs)"
proof (induction rs)
  case Nil then show ?case by simp
next
  case (Cons a rs)
  have nonneg: "0 \<le> sum_list (filter (\<lambda>r. \<not> r < 0) rs)"
    by (rule sum_list_nonneg) auto
  show ?case
  proof (cases "r = a")
    case True
    with Cons.prems nonneg show ?thesis by simp
  next
    case False
    with Cons have "r \<le> sum_list (filter (\<lambda>r. \<not> r < 0) rs)" by simp
    moreover have "a < 0 \<or> 0 \<le> a" by linarith
    ultimately show ?thesis by auto
  qed
qed

lemma normalize_zero:
  "normalize (findMinMax (map Num rs)) (Num T) (Num 0)
   = (if sum_list (filter (\<lambda>r. \<not> r < 0) rs) = 0 then NaN else Num 0)"
  by (simp add: normalize_def findMinMax_Num)

lemma negative_factor:
  assumes "0 < T" "\<exists>r\<in>set rs. r < 0"
  obtains c where "0 < c" "sum_list (filter (\<lambda>r. r < 0) rs) * c = - T"
    "\<And>r. r \<in> set rs \<Longrightarrow> r < 0 \<Longrightarrow> normalize (findMinMax (map Num rs)) (Num T) (Num r) = Num (r * c)"
proof -
  let ?m = "sum_list (filter (\<lambda>r. r < 0) rs)"
  from assms(2) obtain r where "r \<in> set rs" "r < 0" by blast
  then have "?m \<le> r" by (rule sum_neg_le)
  with \<open>r < 0\<close> have m: "?m < 0" by linarith
  define c where "c = T / (- ?m)"
  have 1: "0 < c" unfolding c_def by (rule divide_pos_pos) (use m assms(1) in auto)
  have 2: "?m * c = - T" using m by (simp add: c_def field_simps)
  have 3: "normalize (findMinMax (map Num rs)) (Num T) (Num r) = Num (r * c)" if "r < 0" for r
    using that m by (simp add: normalize_def findMinMax_Num c_def field_simps)
  show thesis using that [OF 1 2] 3 by blast
qed

lemma positive_factor:
  assumes "0 < T" "\<exists>r\<in>set rs. 0 < r"
  obtains c where "0 < c" "sum_list (filter (\<lambda>r. \<not> r < 0) rs) * c = T"
    "\<And>r. r \<in> set rs \<Longrightarrow> \<not> r < 0 \<Longrightarrow> normalize (findMinMax (map Num rs)) (Num T) (Num r) = Num (r * c)"
proof -
  let ?M = "sum_list (filter (\<lambda>r. \<not> r < 0) rs)"
  from assms(2) obtain r where "r \<in> set rs" "0 < r" by blast
  then have "r \<le> ?M" by (intro sum_pos_ge) auto
  with \<open>0 < r\<close> have M: "0 < ?M" by linarith
  define c where "c = T / ?M"
  have 1: "0 < c" using M assms(1) by (simp add: c_def)
  have 2: "?M * c = T" using M by (simp add: c_def field_simps)
  have 3: "normalize (findMinMax (map Num rs)) (Num T) (Num r) = Num (r * c)" if "\<not> r < 0" for r
    using that M by (simp add: normalize_def findMinMax_Num c_def field_simps)
  show thesis using that [OF 1 2] 3 by blast
qed

lemma scaled_sign:
  assumes "0 < T" "r \<in> set rs"
  shows "(js_lt (normalize (findMinMax (map Num rs)) (Num T) (Num r)) (Num 0) \<longleftrightarrow> r < 0)
       \<and> (js_lt (Num 0) (normalize (findMinMax (map Num rs)) (Num T) (Num r)) \<longleftrightarrow> 0 < r)"
proof -
  consider "r < 0" | "r = 0" | "0 < r" by linarith
  then show ?thesis
  proof cases
    case 1
    with assms have "\<exists>r\<in>set rs. r < 0" by blast
    with assms(1) obtain c where c: "0 < c" "sum_list (filter (\<lambda>r. r < 0) rs) * c = - T"
      "\<And>r. r \<in> set rs \<Longrightarrow> r < 0 \<Longrightarrow> normalize (findMinMax (map Num rs)) (Num T) (Num r) = Num (r * c)"
      by (rule negative_factor) (rule that)
    from 1 c(1) have "r * c < 0" by (simp add: mult_neg_pos)
    with 1 assms(2) c(3) show ?thesis by simp
  next
    case 2
    then show ?thesis by (simp add: normalize_zero)
  next
    case 3
    with assms have "\<exists>r\<in>set rs. 0 < r" by blast
    with assms(1) obtain c where c: "0 < c" "sum_list (filter (\<lambda>r. \<not> r < 0) rs) * c = T"
      "\<And>r. r \<in> set rs \<Longrightarrow> \<not> r < 0 \<Longrightarrow> normalize (findMinMax (map Num rs)) (Num T) (Num r) = Num (r * c)"
      by (rule positive_factor) (rule that)
    from 3 c(1) have "0 < r * c" by simp
    moreover from 3 have "\<not> r < 0" by simp
    ultimately show ?thesis using 3 assms(2) c(3) by simp
  qed
qed

lemma negativeSum_normalized:
  assumes "0 < T"
  shows "negativeSum (map (normalize (findMinMax (map Num rs)) (Num T)) (map Num rs))
         = (if \<exists>r\<in>set rs. r < 0 then Num (- T) else Num 0)"
proof -
  let ?f = "\<lambda>r. normalize (findMinMax (map Num rs)) (Num T) (Num r)"
  let ?m = "sum_list (filter (\<lambda>r. r < 0) rs)"
  have flt: "filter (\<lambda>y. js_lt y (Num 0)) (map ?f rs) = map ?f (filter (\<lambda>r. r < 0) rs)"
    unfolding filter_map comp_def
    by (rule arg_cong [where f = "map ?f"], rule filter_cong) (use assms scaled_sign in auto)
  show ?thesis
  proof (cases "\<exists>r\<in>set rs. r < 0")
    case True
    with assms obtain c where c0: "0 < c" and c: "?m * c = - T"
      "\<And>r. r \<in> set rs \<Longrightarrow> r < 0 \<Longrightarrow> ?f r = Num (r * c)"
      by (rule negative_factor) (rule that)
    have "map ?f (filter (\<lambda>r. r < 0) rs) = map (\<lambda>r. Num (r * c)) (filter (\<lambda>r. r < 0) rs)"
      by (rule map_cong) (auto simp: c(2))
    with flt have "negativeSum (map ?f rs) = Num (sum_list (map (\<lambda>r. r * c) (filter (\<lambda>r. r < 0) rs)))"
      by (simp add: negativeSum_def foldl_js_add_Num)
    also have "sum_list (map (\<lambda>r. r * c) (filter (\<lambda>r. r < 0) rs)) = ?m * c"
      by (simp add: sum_list_mult_const)
    finally show ?thesis using True c(1) by (simp add: comp_def)
  next
    case False
    then have "filter (\<lambda>r. r < 0) rs = []" by (auto simp: filter_empty_conv)
    with flt False show ?thesis by (simp add: comp_def negativeSum_def)
  qed
qed

lemma positiveSum_normalized:
  assumes "0 < T"
  shows "positiveSum (map (normalize (findMinMax (map Num rs)) (Num T)) (map Num rs))
         = (if \<exists>r\<in>set rs. 0 < r then Num T else Num 0)"
proof -
  let ?f = "\<lambda>r. normalize (findMinMax (map Num rs)) (Num T) (Num r)"
  let ?M = "sum_list (filter (\<lambda>r. \<not> r < 0) rs)"
  have flt: "filter (\<lambda>y. js_lt (Num 0) y) (map ?f rs) = map ?f (filter (\<lambda>r. 0 < r) rs)"
    unfolding filter_map comp_def
    by (rule arg_cong [where f = "map ?f"], rule filter_cong) (use assms scaled_sign in auto)
  have pos_sum: "sum_list (filter (\<lambda>r. 0 < r) rs) = ?M"
    by (induction rs) auto
  show ?thesis
  proof (cases "\<exists>r\<in>set rs. 0 < r")
    case True
    with assms obtain c where c0: "0 < c" and c: "?M * c = T"
      "\<And>r. r \<in> set rs \<Longrightarrow> \<not> r < 0 \<Longrightarrow> ?f r = Num (r * c)"
      by (rule positive_factor) (rule that)
    have "map ?f (filter (\<lambda>r. 0 < r) rs) = map (\<lambda>r. Num (r * c)) (filter (\<lambda>r. 0 < r) rs)"
      by (rule map_cong) (auto simp: c(2))
    with flt have "positiveSum (map ?f rs) = Num (sum_list (map (\<lambda>r. r * c) (filter (\<lambda>r. 0 < r) rs)))"
      by (simp add: positiveSum_def foldl_js_add_Num)
    also have "sum_list (map (\<lambda>r. r * c) (filter (\<lambda>r. 0 < r) rs)) = ?M * c"
      by (simp add: sum_list_mult_const pos_sum)
    finally show ?thesis using True c(1) by (simp add: comp_def)
  next
    case False
    then have "filter (\<lambda>r. 0 < r) rs = []" by (auto simp: filter_empty_conv)
    with flt False show ?thesis by (simp add: comp_def positiveSum_def)
  qed
qed

lemma larger_sum_normalized:
  assumes "0 < T" "\<exists>r\<in>set rs. r \<noteq> 0"
  shows "js_max (js_abs (negativeSum (map (normalize (findMinMax (map Num rs)) (Num T)) (map Num rs))))
                (positiveSum (map (normalize (findMinMax (map Num rs)) (Num T)) (map Num rs)))
         = Num T"
proof -
  from assms(2) have "(\<exists>r\<in>set rs. r < 0) \<or> (\<exists>r\<in>set rs. 0 < r)"
    by (meson linorder_neqE_linordered_idom)
  then show ?thesis
    unfolding negativeSum_normalized [OF assms(1)] positiveSum_normalized [OF assms(1)]
    using assms(1) by (auto simp: js_max_def)
qed

lemma processData_yData_normalized:
  assumes "normalizedTo s = Some (Num T)" "T \<noteq> 0" "i < length (yData (snd (processData fx s)))"
  shows "\<exists>rows. sdata s = Some rows \<and> i < length rows
         \<and> yData (snd (processData fx s)) ! i
           = map (normalize (findMinMax (yValues (yKeys s) (seriesItemEnabled s) (rows ! i))) (Num T))
                 (yValues (yKeys s) (seriesItemEnabled s) (rows ! i))"
  using assms
  by (auto simp: processData_def Let_def fireEvent_def split: option.splits if_splits)

lemmas eval_defs = processData_def Let_def exampleSeries_def newSeries_def exampleRows_def
  yValues_def fireEvent_def findMinMax_def findLargestMinMax_def normalize_def
  normalizedSeries_def normalizedRows_def zeroSeries_def zeroRows_def

text \<open>
  What the scaling reaches in the idealised arithmetic: with a target \<open>T > 0\<close>, in
  every row that has a nonzero entry the larger of the absolute sum of the negative
  entries and the sum of the positive entries is \<open>T\<close>, a negative entry stays negative
  and a positive entry stays positive. Nothing is said of the zero entries.
\<close>

lemma normalization_reaches_target:
  assumes "normalizedTo s = Some (Num T)" and "0 < T"
    and "sdata s = Some rows"
    and "i < length (yData (snd (processData fixNumericExtent s)))"
    and "\<exists>v\<in>set (yValues (yKeys s) (seriesItemEnabled s) (rows ! i)). v \<noteq> Num 0"
  shows "(let raw = yValues (yKeys s) (seriesItemEnabled s) (rows ! i);
              scaled = yData (snd (processData fixNumericExtent s)) ! i
          in js_max (js_abs (negativeSum scaled)) (positiveSum scaled) = Num T
             \<and> length scaled = length raw
             \<and> (\<forall>j<length raw.
                   (js_lt (raw ! j) (Num 0) \<longrightarrow> js_lt (scaled ! j) (Num 0))
                   \<and> (js_lt (Num 0) (raw ! j) \<longrightarrow> js_lt (Num 0) (scaled ! j))))"
proof -
  let ?raw = "yValues (yKeys s) (seriesItemEnabled s) (rows ! i)"
  let ?scaled = "yData (snd (processData fixNumericExtent s)) ! i"
  from assms(2) have "T \<noteq> 0" by simp
  from processData_yData_normalized [OF assms(1) this assms(4)] assms(3)
  have scaled: "?scaled = map (normalize (findMinMax ?raw) (Num T)) ?raw" by auto
  obtain rs where rs: "?raw = map Num rs" using yValues_map_Num by blast
  from assms(5) rs have nz: "\<exists>r\<in>set rs. r \<noteq> 0" by auto
  have 1: "js_max (js_abs (negativeSum ?scaled)) (positiveSum ?scaled) = Num T"
    unfolding scaled rs by (rule larger_sum_normalized [OF assms(2) nz])
  have 2: "length ?scaled = length ?raw" by (simp add: scaled)
  have 3: "(js_lt (?raw ! j) (Num 0) \<longrightarrow> js_lt (?scaled ! j) (Num 0))
         \<and> (js_lt (Num 0) (?raw ! j) \<longrightarrow> js_lt (Num 0) (?scaled ! j))" if "j < length ?raw" for j
  proof -
    from that rs have j: "j < length rs" by (metis length_map)
    then have mem: "rs ! j \<in> set rs" by simp
    have "?scaled ! j = normalize (findMinMax (map Num rs)) (Num T) (Num (rs ! j))"
      unfolding scaled rs using j by simp
    moreover have "?raw ! j = Num (rs ! j)" unfolding rs using j by simp
    ultimately show ?thesis using scaled_sign [OF assms(2) mem] by simp
  qed
  show ?thesis unfolding Let_def using 1 2 3 by blast
qed

text \<open>The row \<open>{a: 4, b: -1}\<close> with target 10 becomes \<open>[10, -10]\<close>.\<close>

lemma normalization_reaches_target_example:
  "yData (snd (processData (\<lambda>e. e) normalizedSeries)) = [[Num 10, Num (- 10)]]
   \<and> js_max (js_abs (negativeSum (yData (snd (processData (\<lambda>e. e) normalizedSeries)) ! 0)))
             (positiveSum (yData (snd (processData (\<lambda>e. e) normalizedSeries)) ! 0)) = Num 10"
proof -
  have y: "yData (snd (processData (\<lambda>e. e) normalizedSeries)) = [[Num 10, Num (- 10)]]"
    by (simp add: eval_defs)
  have "yValues (yKeys normalizedSeries) (seriesItemEnabled normalizedSeries) (normalizedRows ! 0)
        = [Num 4, Num (- 1)]"
    by (simp add: eval_defs)
  then show ?thesis
    using y normalization_reaches_target [of normalizedSeries 10 normalizedRows 0 "\<lambda>e. e"]
    by (simp add: Let_def normalizedSeries_def)
qed

text \<open>
  C1. The row \<open>{a: 0, b: -5}\<close> has a nonzero entry and is normalized to 100. Its zero
  entry becomes NaN, so the sign of that entry is not preserved, and the row's own
  totals, summed as the program sums them, have NaN for the non-negative part: the
  larger of the two totals is NaN, not 100.
\<close>

theorem zero_entry_breaks_normalization:
  "normalizedTo zeroSeries = Some (Num 100)
   \<and> yValues (yKeys zeroSeries) (seriesItemEnabled zeroSeries) (zeroRows ! 0) = [Num 0, Num (- 5)]
   \<and> yData (snd (processData (\<lambda>e. e) zeroSeries)) ! 0 = [NaN, Num (- 100)]
   \<and> [NaN, Num (- 100)] ! 0 \<noteq> Num 0
   \<and> findMinMax [NaN, Num (- 100)] = \<lparr>minv = Num (- 100), maxv = NaN\<rparr>
   \<and> js_max (js_abs (Num (- 100))) NaN = NaN"
  by (simp add: eval_defs js_max_def)

text \<open>
  C2. The row \<open>{a: 0, b: -5}\<close> normalized to 100: the entry 0 is divided by the row's
  maximum 0, and \<open>0 / 0 * 100\<close> is NaN, not 0.
\<close>

theorem zero_entry_scaled_to_NaN:
  "yValues (yKeys zeroSeries) (seriesItemEnabled zeroSeries) (zeroRows ! 0) = [Num 0, Num (- 5)]
   \<and> maxv (findMinMax [Num 0, Num (- 5)]) = Num 0
   \<and> yData (snd (processData (\<lambda>e. e) zeroSeries)) = [[NaN, Num (- 100)]]"
  by (simp add: eval_defs)








section \<open>Properties of the range aggregator\<close>

lemma visitAll_row: "visitAll g acc (map (\<lambda>c. (r, c)) cols) = foldl (visitCell g r) acc cols"
  by (simp add: visitAll_def foldl_map)

lemma visitAll_append: "visitAll g acc (cs @ ds) = visitAll g (visitAll g acc cs) ds"
  by (simp add: visitAll_def)

lemma visitAll_cellsOfRows_Cons:
  "visitAll g acc (cellsOfRows cols (r # rs))
   = visitAll g (foldl (visitCell g r) acc cols) (cellsOfRows cols rs)"
  by (simp add: cellsOfRows_def visitAll_append visitAll_row)

lemma walkRows_rowsWalked:
  "walkRows fuel g cols lastRow currentRow acc =
     (case rowsWalked fuel g lastRow currentRow of
        None \<Rightarrow> None
      | Some (Inl e) \<Rightarrow> Some (Inl e)
      | Some (Inr rs) \<Rightarrow> Some (Inr (visitAll g acc (cellsOfRows cols rs))))"
proof (induction fuel arbitrary: currentRow acc)
  case 0
  show ?case by simp
next
  case (Suc fuel)
  show ?case
  proof (cases "equals currentRow lastRow")
    case True
    then show ?thesis by (simp add: visitAll_cellsOfRows_Cons) (simp add: cellsOfRows_def visitAll_def)
  next
    case False
    show ?thesis
    proof (cases "getRowBelow g currentRow")
      case None
      with False show ?thesis by simp
    next
      case (Some below)
      with False show ?thesis
        by (simp add: Suc.IH Let_def visitAll_cellsOfRows_Cons split: option.splits sum.splits)
    qed
  qed
qed

lemma aggregateRange_cells:
  "aggregateRange fuel g cellRange acc =
     (case cellsOfRange fuel g cellRange of
        None \<Rightarrow> None
      | Some (Inl e) \<Rightarrow> Some (Inl e)
      | Some (Inr cs) \<Rightarrow> Some (Inr (visitAll g acc cs)))"
  by (simp add: aggregateRange_def cellsOfRange_def Let_def walkRows_rowsWalked
           split: option.splits sum.splits)

lemma aggregateRanges_cells:
  "aggregateRanges fuel g cellRanges acc =
     (case cellsOfRanges fuel g cellRanges of
        None \<Rightarrow> None
      | Some (Inl e) \<Rightarrow> Some (Inl e)
      | Some (Inr cs) \<Rightarrow> Some (Inr (visitAll g acc cs)))"
proof (induction cellRanges arbitrary: acc)
  case Nil
  show ?case by (simp add: visitAll_def)
next
  case (Cons r rest)
  show ?case
    by (simp add: aggregateRange_cells Cons.IH visitAll_append split: option.splits sum.splits)
qed

lemma getGridCell_inj: "getGridCell r c = getGridCell r' c' \<longleftrightarrow> r = r' \<and> c = c'"
  by (cases r, cases r') (auto simp: getGridCell_def)

lemma cellsSoFar_addCell: "cellsSoFar (addCell g r c acc) = cellsSoFar acc"
  by (simp add: addCell_def Let_def split: option.splits jsval.splits)

lemma aggCount_addCell: "aggCount (addCell g r c acc) = aggCount acc + 1"
  by (simp add: addCell_def Let_def split: option.splits jsval.splits)

lemma visitCell_seen: "marked acc seen \<Longrightarrow> (r, c) \<in> seen \<Longrightarrow> visitCell g r acc c = acc"
  by (simp add: visitCell_def marked_def)

lemma visitCell_new:
  assumes "marked acc seen" "(r, c) \<notin> seen"
  shows "marked (visitCell g r acc c) (insert (r, c) seen)"
    and "aggCount (visitCell g r acc c) = aggCount acc + 1"
proof -
  from assms have "cellsSoFar acc (createId (getGridCell r c)) \<noteq> Some True"
    by (simp add: marked_def)
  then have v: "visitCell g r acc c
      = addCell g r c (acc\<lparr>cellsSoFar := (cellsSoFar acc)(createId (getGridCell r c) \<mapsto> True)\<rparr>)"
    by (simp add: visitCell_def)
  show "marked (visitCell g r acc c) (insert (r, c) seen)"
    using assms(1) unfolding v marked_def cellsSoFar_addCell
    by (auto simp: createId_def getGridCell_inj)
  show "aggCount (visitCell g r acc c) = aggCount acc + 1"
    unfolding v by (simp add: aggCount_addCell)
qed

lemma visitAll_unseen:
  "marked acc seen \<Longrightarrow> visitAll g acc cs = visitAll g acc (unseen seen cs)"
proof (induction cs arbitrary: acc seen)
  case Nil
  show ?case by simp
next
  case (Cons x cs)
  obtain r c where x: "x = (r, c)" by (cases x)
  show ?case
  proof (cases "x \<in> seen")
    case True
    with Cons.prems x have "visitCell g r acc c = acc" by (simp add: visitCell_seen)
    with True x Cons.IH [OF Cons.prems] show ?thesis by (simp add: visitAll_def)
  next
    case False
    with Cons.prems x have "marked (visitCell g r acc c) (insert x seen)"
      by (simp add: visitCell_new)
    from Cons.IH [OF this] False x show ?thesis by (simp add: visitAll_def)
  qed
qed

lemma aggCount_visitAll:
  "marked acc seen \<Longrightarrow> aggCount (visitAll g acc cs) = aggCount acc + length (unseen seen cs)"
proof (induction cs arbitrary: acc seen)
  case Nil
  show ?case by (simp add: visitAll_def)
next
  case (Cons x cs)
  obtain r c where x: "x = (r, c)" by (cases x)
  show ?case
  proof (cases "x \<in> seen")
    case True
    with Cons.prems x have "visitCell g r acc c = acc" by (simp add: visitCell_seen)
    with True x Cons.IH [OF Cons.prems] show ?thesis by (simp add: visitAll_def)
  next
    case False
    with Cons.prems x have m: "marked (visitCell g r acc c) (insert x seen)"
      and n: "aggCount (visitCell g r acc c) = aggCount acc + 1"
      by (simp_all add: visitCell_new)
    from Cons.IH [OF m] n False x show ?thesis by (simp add: visitAll_def)
  qed
qed

lemma set_unseen: "set (unseen seen xs) = set xs - seen"
  by (induction xs arbitrary: seen) auto

lemma distinct_unseen: "distinct (unseen seen xs)"
  by (induction xs arbitrary: seen) (auto simp: set_unseen)

lemma marked_initial: "marked initialAggregation {}"
  by (simp add: marked_def initialAggregation_def)

lemma length_firstVisits: "length (firstVisits xs) = card (set xs)"
proof -
  have "card (set (firstVisits xs)) = length (firstVisits xs)"
    unfolding firstVisits_def by (rule distinct_card) (rule distinct_unseen)
  then show ?thesis by (simp add: firstVisits_def set_unseen)
qed

lemma js_lt_trans0_min: "js_lt v m \<Longrightarrow> \<not> js_lt (Num 0) m \<Longrightarrow> m \<noteq> NaN \<Longrightarrow> \<not> js_lt (Num 0) v \<and> v \<noteq> NaN"
  by (cases v; cases m) auto

lemma js_lt_trans0_max: "js_lt m v \<Longrightarrow> \<not> js_lt m (Num 0) \<Longrightarrow> m \<noteq> NaN \<Longrightarrow> \<not> js_lt v (Num 0) \<and> v \<noteq> NaN"
  by (cases v; cases m) auto

lemma seeded_addCell: "seeded acc \<Longrightarrow> seeded (addCell g r c acc)"
  unfolding seeded_def addCell_def Let_def
  by (auto split: option.splits jsval.splits dest: js_lt_trans0_min js_lt_trans0_max)

lemma seeded_visitCell: "seeded acc \<Longrightarrow> seeded (visitCell g r acc c)"
proof -
  assume a: "seeded acc"
  have "seeded (acc\<lparr>cellsSoFar := m\<rparr>)" for m using a by (simp add: seeded_def)
  then show ?thesis using a by (simp add: visitCell_def Let_def seeded_addCell)
qed

lemma seeded_visitAll: "seeded acc \<Longrightarrow> seeded (visitAll g acc cs)"
  unfolding visitAll_def
  by (induction cs arbitrary: acc) (simp_all add: seeded_visitCell)

lemma seeded_initial: "seeded initialAggregation"
  by (simp add: seeded_def initialAggregation_def)

lemmas grid_defs = exampleGrid_def reversedRange_def upperRange_def lowerRange_def singleCell_def
  getGridRow_def getGridCell_def createId_def equals_def before_def rowBelow_def getRowNode_def
  cellsOfRange_def cellsOfRows_def aggregateRange_def visitCell_def addCell_def
  initialAggregation_def Let_def

lemma rowsWalked_reversed:
  "rowsWalked (3 + k) exampleGrid \<lparr>rowIndex = 2, floating = None\<rparr> \<lparr>rowIndex = 0, floating = None\<rparr>
   = Some (Inr [\<lparr>rowIndex = 0, floating = None\<rparr>, \<lparr>rowIndex = 1, floating = None\<rparr>,
                \<lparr>rowIndex = 2, floating = None\<rparr>])"
  by (simp add: numeral_3_eq_3 grid_defs)

lemma cells_reversed:
  "cellsOfRanges (3 + k) exampleGrid [reversedRange]
   = Some (Inr [(\<lparr>rowIndex = 0, floating = None\<rparr>, ''v''), (\<lparr>rowIndex = 1, floating = None\<rparr>, ''v''),
                (\<lparr>rowIndex = 2, floating = None\<rparr>, ''v'')])"
  using rowsWalked_reversed [of k] by (simp add: grid_defs)

lemma aggregate_reversed:
  "aggregateRanges (3 + k) exampleGrid [reversedRange] initialAggregation
   = Some (Inr \<lparr>aggSum = Num 6, aggCount = 3, aggMin = Num 0, aggMax = Num 3,
                cellsSoFar = [\<lparr>cellRowIndex = 0, cellFloating = None, column = ''v''\<rparr> \<mapsto> True,
                              \<lparr>cellRowIndex = 1, cellFloating = None, column = ''v''\<rparr> \<mapsto> True,
                              \<lparr>cellRowIndex = 2, cellFloating = None, column = ''v''\<rparr> \<mapsto> True]\<rparr>)"
  unfolding aggregateRanges_cells cells_reversed
  by (simp add: visitAll_def grid_defs)

text \<open>
  C7. For a range whose end row precedes its start row, over three rows and one column
  holding 1, 2 and 3, the aggregator shows sum 6, count 3, min 0, max 3 and average 2,
  with any fuel of at least 3. The minimum and maximum start at 0, so in every pass that
  ends the minimum is not above 0 and the maximum is not below 0.
\<close>

theorem reversed_range_aggregate:
  "onRangeSelectionChanged (3 + k) exampleGrid (Some [reversedRange]) emptyStatusBar
     = Some (Inr \<lparr>statusItemSum = \<lparr>itemValue = Some (Num 6), itemVisible = True\<rparr>,
                  statusItemCount = \<lparr>itemValue = Some (Num 3), itemVisible = True\<rparr>,
                  statusItemMin = \<lparr>itemValue = Some (Num 0), itemVisible = True\<rparr>,
                  statusItemMax = \<lparr>itemValue = Some (Num 3), itemVisible = True\<rparr>,
                  statusItemAvg = \<lparr>itemValue = Some (Num 2), itemVisible = True\<rparr>\<rparr>)
   \<and> before (getGridRow (rangeEnd reversedRange)) (getGridRow (rangeStart reversedRange))
   \<and> aggMin initialAggregation = Num 0 \<and> aggMax initialAggregation = Num 0
   \<and> (aggregateRanges fuel g cellRanges initialAggregation = Some (Inr acc)
        \<longrightarrow> \<not> js_lt (Num 0) (aggMin acc) \<and> aggMin acc \<noteq> NaN
            \<and> \<not> js_lt (aggMax acc) (Num 0) \<and> aggMax acc \<noteq> NaN)"
proof -
  have 1: "onRangeSelectionChanged (3 + k) exampleGrid (Some [reversedRange]) emptyStatusBar
     = Some (Inr \<lparr>statusItemSum = \<lparr>itemValue = Some (Num 6), itemVisible = True\<rparr>,
                  statusItemCount = \<lparr>itemValue = Some (Num 3), itemVisible = True\<rparr>,
                  statusItemMin = \<lparr>itemValue = Some (Num 0), itemVisible = True\<rparr>,
                  statusItemMax = \<lparr>itemValue = Some (Num 3), itemVisible = True\<rparr>,
                  statusItemAvg = \<lparr>itemValue = Some (Num 2), itemVisible = True\<rparr>\<rparr>)"
    unfolding onRangeSelectionChanged_def option.case aggregate_reversed
    by (simp add: showResult_def emptyStatusBar_def forEachStatusItem_def setValue_def
                  setVisible_def Let_def)
  have 2: "before (getGridRow (rangeEnd reversedRange)) (getGridRow (rangeStart reversedRange))"
    by (simp add: before_def getGridRow_def reversedRange_def)
  have 3: "aggMin initialAggregation = Num 0 \<and> aggMax initialAggregation = Num 0"
    by (simp add: initialAggregation_def)
  have 4: "\<not> js_lt (Num 0) (aggMin acc) \<and> aggMin acc \<noteq> NaN
            \<and> \<not> js_lt (aggMax acc) (Num 0) \<and> aggMax acc \<noteq> NaN"
    if "aggregateRanges fuel g cellRanges initialAggregation = Some (Inr acc)"
  proof -
    from that obtain cs where "acc = visitAll g initialAggregation cs"
      by (auto simp: aggregateRanges_cells split: option.splits sum.splits)
    with seeded_visitAll [OF seeded_initial, of g cs] show ?thesis by (simp add: seeded_def)
  qed
  from 1 2 3 4 show ?thesis by blast
qed

text \<open>C7 at the scenario itself: the pass ends with minimum 0 and maximum 3.\<close>

theorem reversed_range_aggregate_witness:
  "aggregateRanges 3 exampleGrid [reversedRange] initialAggregation
     = Some (Inr \<lparr>aggSum = Num 6, aggCount = 3, aggMin = Num 0, aggMax = Num 3,
                  cellsSoFar = [\<lparr>cellRowIndex = 0, cellFloating = None, column = ''v''\<rparr> \<mapsto> True,
                                \<lparr>cellRowIndex = 1, cellFloating = None, column = ''v''\<rparr> \<mapsto> True,
                                \<lparr>cellRowIndex = 2, cellFloating = None, column = ''v''\<rparr> \<mapsto> True]\<rparr>)
   \<and> \<not> js_lt (Num 0) (Num 0) \<and> \<not> js_lt (Num 3) (Num 0)"
  using reversed_range_aggregate [of 0 3 exampleGrid "[reversedRange]"] aggregate_reversed [of 0]
  by simp

text \<open>
  C8. A pass over ranges that visit the cells \<open>cells\<close> (with repetitions where ranges
  overlap) gives the result of visiting each cell once, in the order of the first
  visits; its count is the number of distinct cells; and two lists of ranges whose
  visits differ only in repetitions give the same result.
\<close>

theorem cells_counted_once:
  assumes "cellsOfRanges fuel g cellRanges = Some (Inr cells)"
  shows "aggregateRanges fuel g cellRanges initialAggregation
           = Some (Inr (visitAll g initialAggregation (firstVisits cells)))
       \<and> distinct (firstVisits cells) \<and> set (firstVisits cells) = set cells
       \<and> aggCount (visitAll g initialAggregation (firstVisits cells)) = card (set cells)
       \<and> (\<forall>fuel' cellRanges' cells'.
             cellsOfRanges fuel' g cellRanges' = Some (Inr cells')
             \<and> firstVisits cells' = firstVisits cells
             \<longrightarrow> aggregateRanges fuel' g cellRanges' initialAggregation
                 = aggregateRanges fuel g cellRanges initialAggregation)"
proof -
  have dedup: "visitAll g initialAggregation cs = visitAll g initialAggregation (firstVisits cs)" for cs
    unfolding firstVisits_def by (rule visitAll_unseen [OF marked_initial])
  have agg: "aggregateRanges f g rs initialAggregation
             = Some (Inr (visitAll g initialAggregation (firstVisits cs)))"
    if "cellsOfRanges f g rs = Some (Inr cs)" for f rs cs
    using that dedup [of cs] by (simp add: aggregateRanges_cells)
  have 1: "aggregateRanges fuel g cellRanges initialAggregation
           = Some (Inr (visitAll g initialAggregation (firstVisits cells)))"
    using assms by (rule agg)
  have 2: "distinct (firstVisits cells)" "set (firstVisits cells) = set cells"
    by (simp_all add: firstVisits_def distinct_unseen set_unseen)
  have "aggCount (visitAll g initialAggregation cells) = length (firstVisits cells)"
    using aggCount_visitAll [OF marked_initial, of g cells]
    by (simp add: firstVisits_def initialAggregation_def)
  then have 3: "aggCount (visitAll g initialAggregation (firstVisits cells)) = card (set cells)"
    using dedup [of cells] by (simp add: length_firstVisits)
  have 4: "aggregateRanges fuel' g cellRanges' initialAggregation
           = aggregateRanges fuel g cellRanges initialAggregation"
    if "cellsOfRanges fuel' g cellRanges' = Some (Inr cells')" "firstVisits cells' = firstVisits cells"
    for fuel' cellRanges' cells'
    using agg [OF that(1)] 1 that(2) by simp
  from 1 2 3 4 show ?thesis by blast
qed

lemma cells_overlapping:
  "cellsOfRanges 3 exampleGrid [upperRange, lowerRange]
   = Some (Inr [(\<lparr>rowIndex = 0, floating = None\<rparr>, ''v''), (\<lparr>rowIndex = 1, floating = None\<rparr>, ''v''),
                (\<lparr>rowIndex = 1, floating = None\<rparr>, ''v''), (\<lparr>rowIndex = 2, floating = None\<rparr>, ''v'')])"
  by (simp add: numeral_3_eq_3 grid_defs)

text \<open>
  C8 on rows 0 to 1 and rows 1 to 2, which share row 1: the result is that of the single
  range over rows 0 to 2.
\<close>

theorem cells_counted_once_witness:
  "aggregateRanges 3 exampleGrid [upperRange, lowerRange] initialAggregation
     = aggregateRanges 3 exampleGrid [reversedRange] initialAggregation
   \<and> (\<exists>acc. aggregateRanges 3 exampleGrid [upperRange, lowerRange] initialAggregation = Some (Inr acc)
            \<and> aggCount acc = 3 \<and> aggSum acc = Num 6)"
proof -
  let ?cells = "[(\<lparr>rowIndex = 0, floating = None\<rparr>, ''v''), (\<lparr>rowIndex = 1, floating = None\<rparr>, ''v''),
                 (\<lparr>rowIndex = 2, floating = None\<rparr>, ''v'')]"
  let ?cells' = "[(\<lparr>rowIndex = 0, floating = None\<rparr>, ''v''), (\<lparr>rowIndex = 1, floating = None\<rparr>, ''v''),
                  (\<lparr>rowIndex = 1, floating = None\<rparr>, ''v''), (\<lparr>rowIndex = 2, floating = None\<rparr>, ''v'')]"
  have c: "cellsOfRanges 3 exampleGrid [reversedRange] = Some (Inr ?cells)"
    using cells_reversed [of 0] by simp
  have f: "firstVisits ?cells' = firstVisits ?cells"
    by (simp add: firstVisits_def)
  from cells_counted_once [OF c] cells_overlapping f
  have "aggregateRanges 3 exampleGrid [upperRange, lowerRange] initialAggregation
        = aggregateRanges 3 exampleGrid [reversedRange] initialAggregation"
    by blast
  then show ?thesis using aggregate_reversed [of 0] by simp
qed

text \<open>
  C9. When a pass ends, its count is the number of distinct cells visited. If that
  number is greater than 1 the status bar shows the result: the five items hold the
  sum, the count, the minimum, the maximum and the average (sum / count) of the pass and
  are visible. Otherwise no result is shown: every item is hidden and keeps the value it
  had. So each item is visible exactly if more than one cell was visited.
\<close>

theorem result_shown_iff_several_cells:
  assumes "cellsOfRanges fuel g (case cellRanges of None \<Rightarrow> [] | Some rs \<Rightarrow> rs) = Some (Inr cells)"
  shows "\<exists>acc bar'.
           aggregateRanges fuel g (case cellRanges of None \<Rightarrow> [] | Some rs \<Rightarrow> rs) initialAggregation
             = Some (Inr acc)
           \<and> acc = visitAll g initialAggregation cells
           \<and> aggCount acc = card (set cells)
           \<and> onRangeSelectionChanged fuel g cellRanges bar = Some (Inr bar')
           \<and> itemVisible (statusItemSum bar') = (1 < card (set cells))
           \<and> itemVisible (statusItemCount bar') = (1 < card (set cells))
           \<and> itemVisible (statusItemMin bar') = (1 < card (set cells))
           \<and> itemVisible (statusItemMax bar') = (1 < card (set cells))
           \<and> itemVisible (statusItemAvg bar') = (1 < card (set cells))
           \<and> (1 < card (set cells) \<longrightarrow>
                 bar' = \<lparr>statusItemSum = \<lparr>itemValue = Some (aggSum acc), itemVisible = True\<rparr>,
                         statusItemCount =
                           \<lparr>itemValue = Some (Num (real (card (set cells)))), itemVisible = True\<rparr>,
                         statusItemMin = \<lparr>itemValue = Some (aggMin acc), itemVisible = True\<rparr>,
                         statusItemMax = \<lparr>itemValue = Some (aggMax acc), itemVisible = True\<rparr>,
                         statusItemAvg =
                           \<lparr>itemValue = Some (js_div (aggSum acc) (Num (real (card (set cells))))),
                            itemVisible = True\<rparr>\<rparr>)
           \<and> (card (set cells) \<le> 1 \<longrightarrow>
                 bar' = forEachStatusItem (setVisible False) bar
                 \<and> bar' = \<lparr>statusItemSum =
                             \<lparr>itemValue = itemValue (statusItemSum bar), itemVisible = False\<rparr>,
                           statusItemCount =
                             \<lparr>itemValue = itemValue (statusItemCount bar), itemVisible = False\<rparr>,
                           statusItemMin =
                             \<lparr>itemValue = itemValue (statusItemMin bar), itemVisible = False\<rparr>,
                           statusItemMax =
                             \<lparr>itemValue = itemValue (statusItemMax bar), itemVisible = False\<rparr>,
                           statusItemAvg =
                             \<lparr>itemValue = itemValue (statusItemAvg bar), itemVisible = False\<rparr>\<rparr>)"
proof -
  let ?acc = "visitAll g initialAggregation cells"
  have a: "aggregateRanges fuel g (case cellRanges of None \<Rightarrow> [] | Some rs \<Rightarrow> rs) initialAggregation
           = Some (Inr ?acc)"
    using assms by (simp add: aggregateRanges_cells)
  have "aggCount ?acc = length (firstVisits cells)"
    using aggCount_visitAll [OF marked_initial, of g cells]
    by (simp add: firstVisits_def initialAggregation_def)
  then have n: "aggCount ?acc = card (set cells)" by (simp add: length_firstVisits)
  have r: "onRangeSelectionChanged fuel g cellRanges bar = Some (Inr (showResult ?acc bar))"
    unfolding onRangeSelectionChanged_def a by simp
  have v: "itemVisible (statusItemSum (showResult ?acc bar)) = (1 < card (set cells))"
       "itemVisible (statusItemCount (showResult ?acc bar)) = (1 < card (set cells))"
       "itemVisible (statusItemMin (showResult ?acc bar)) = (1 < card (set cells))"
       "itemVisible (statusItemMax (showResult ?acc bar)) = (1 < card (set cells))"
       "itemVisible (statusItemAvg (showResult ?acc bar)) = (1 < card (set cells))"
    by (simp_all add: showResult_def Let_def forEachStatusItem_def setVisible_def n)
  have shown: "showResult ?acc bar
        = \<lparr>statusItemSum = \<lparr>itemValue = Some (aggSum ?acc), itemVisible = True\<rparr>,
           statusItemCount =
             \<lparr>itemValue = Some (Num (real (card (set cells)))), itemVisible = True\<rparr>,
           statusItemMin = \<lparr>itemValue = Some (aggMin ?acc), itemVisible = True\<rparr>,
           statusItemMax = \<lparr>itemValue = Some (aggMax ?acc), itemVisible = True\<rparr>,
           statusItemAvg =
             \<lparr>itemValue = Some (js_div (aggSum ?acc) (Num (real (card (set cells))))),
              itemVisible = True\<rparr>\<rparr>"
    if "1 < card (set cells)"
    using that n
    by (simp add: showResult_def Let_def forEachStatusItem_def setVisible_def setValue_def)
  have h: "showResult ?acc bar = forEachStatusItem (setVisible False) bar" if "card (set cells) \<le> 1"
    using that n by (simp add: showResult_def Let_def)
  have h': "forEachStatusItem (setVisible False) bar
        = \<lparr>statusItemSum = \<lparr>itemValue = itemValue (statusItemSum bar), itemVisible = False\<rparr>,
           statusItemCount = \<lparr>itemValue = itemValue (statusItemCount bar), itemVisible = False\<rparr>,
           statusItemMin = \<lparr>itemValue = itemValue (statusItemMin bar), itemVisible = False\<rparr>,
           statusItemMax = \<lparr>itemValue = itemValue (statusItemMax bar), itemVisible = False\<rparr>,
           statusItemAvg = \<lparr>itemValue = itemValue (statusItemAvg bar), itemVisible = False\<rparr>\<rparr>"
    by (simp add: forEachStatusItem_def setVisible_def)
  from a n r v shown h h' show ?thesis by (intro exI [of _ ?acc] exI [of _ "showResult ?acc bar"]) simp
qed

text \<open>
  C9 on a selection of one cell, which hides a bar that showed a result and leaves its
  values, and on a selection of two cells holding 1 and 2, which shows sum 3, count 2,
  minimum 0, maximum 2 and average 3/2.
\<close>

theorem result_shown_iff_several_cells_witness:
  "onRangeSelectionChanged 1 exampleGrid (Some [singleCell]) shownStatusBar
     = Some (Inr \<lparr>statusItemSum = \<lparr>itemValue = Some (Num 6), itemVisible = False\<rparr>,
                  statusItemCount = \<lparr>itemValue = Some (Num 3), itemVisible = False\<rparr>,
                  statusItemMin = \<lparr>itemValue = Some (Num 0), itemVisible = False\<rparr>,
                  statusItemMax = \<lparr>itemValue = Some (Num 3), itemVisible = False\<rparr>,
                  statusItemAvg = \<lparr>itemValue = Some (Num 2), itemVisible = False\<rparr>\<rparr>)
   \<and> onRangeSelectionChanged 2 exampleGrid (Some [upperRange]) emptyStatusBar
     = Some (Inr \<lparr>statusItemSum = \<lparr>itemValue = Some (Num 3), itemVisible = True\<rparr>,
                  statusItemCount = \<lparr>itemValue = Some (Num 2), itemVisible = True\<rparr>,
                  statusItemMin = \<lparr>itemValue = Some (Num 0), itemVisible = True\<rparr>,
                  statusItemMax = \<lparr>itemValue = Some (Num 2), itemVisible = True\<rparr>,
                  statusItemAvg = \<lparr>itemValue = Some (Num (3 / 2)), itemVisible = True\<rparr>\<rparr>)"
proof -
  have c1: "cellsOfRanges 1 exampleGrid (case Some [singleCell] of None \<Rightarrow> [] | Some rs \<Rightarrow> rs)
           = Some (Inr [(\<lparr>rowIndex = 1, floating = None\<rparr>, ''v'')])"
    by (simp add: grid_defs)
  have c2: "cellsOfRanges 2 exampleGrid (case Some [upperRange] of None \<Rightarrow> [] | Some rs \<Rightarrow> rs)
           = Some (Inr [(\<lparr>rowIndex = 0, floating = None\<rparr>, ''v''), (\<lparr>rowIndex = 1, floating = None\<rparr>, ''v'')])"
    by (simp add: grid_defs numeral_2_eq_2)
  have acc2: "visitAll exampleGrid initialAggregation
               [(\<lparr>rowIndex = 0, floating = None\<rparr>, ''v''), (\<lparr>rowIndex = 1, floating = None\<rparr>, ''v'')]
              = \<lparr>aggSum = Num 3, aggCount = 2, aggMin = Num 0, aggMax = Num 2,
                 cellsSoFar = [\<lparr>cellRowIndex = 0, cellFloating = None, column = ''v''\<rparr> \<mapsto> True,
                               \<lparr>cellRowIndex = 1, cellFloating = None, column = ''v''\<rparr> \<mapsto> True]\<rparr>"
    by (simp add: visitAll_def grid_defs)
  have d: "card {(\<lparr>rowIndex = 0, floating = None\<rparr>, ''v''), (\<lparr>rowIndex = Suc 0, floating = None\<rparr>, ''v'')} = 2"
    by simp
  from result_shown_iff_several_cells [OF c1, of shownStatusBar]
  have 1: "onRangeSelectionChanged 1 exampleGrid (Some [singleCell]) shownStatusBar
     = Some (Inr \<lparr>statusItemSum = \<lparr>itemValue = Some (Num 6), itemVisible = False\<rparr>,
                  statusItemCount = \<lparr>itemValue = Some (Num 3), itemVisible = False\<rparr>,
                  statusItemMin = \<lparr>itemValue = Some (Num 0), itemVisible = False\<rparr>,
                  statusItemMax = \<lparr>itemValue = Some (Num 3), itemVisible = False\<rparr>,
                  statusItemAvg = \<lparr>itemValue = Some (Num 2), itemVisible = False\<rparr>\<rparr>)"
    by (auto simp: shownStatusBar_def)
  from result_shown_iff_several_cells [OF c2, of emptyStatusBar]
  have 2: "onRangeSelectionChanged 2 exampleGrid (Some [upperRange]) emptyStatusBar
     = Some (Inr \<lparr>statusItemSum = \<lparr>itemValue = Some (Num 3), itemVisible = True\<rparr>,
                  statusItemCount = \<lparr>itemValue = Some (Num 2), itemVisible = True\<rparr>,
                  statusItemMin = \<lparr>itemValue = Some (Num 0), itemVisible = True\<rparr>,
                  statusItemMax = \<lparr>itemValue = Some (Num 2), itemVisible = True\<rparr>,
                  statusItemAvg = \<lparr>itemValue = Some (Num (3 / 2)), itemVisible = True\<rparr>\<rparr>)"
    using d by (auto simp: acc2 [unfolded One_nat_def])
  from 1 2 show ?thesis by simp
qed

section \<open>Properties of the selection data and of the update cycle\<close>

lemma length_js_set: "length (js_set xs i v) = max (length xs) (Suc i)"
  by (auto simp: js_set_def)

lemma js_get_js_set: "js_get (js_set xs i v) k = (if k = i then Some v else js_get xs k)"
  by (auto simp: js_set_def js_get_def nth_append)

lemma foldl_zip_index_invariant:
  assumes "I k a"
    and "\<And>j st y. k \<le> j \<Longrightarrow> j < k + length ys \<Longrightarrow> I j st \<Longrightarrow> I (Suc j) (f st (y, j))"
  shows "I (k + length ys) (foldl f a (zip ys [k..<k + length ys]))"
  using assms
proof (induction ys arbitrary: k a)
  case Nil
  then show ?case by simp
next
  case (Cons y ys)
  have upt: "[k..<k + length (y # ys)] = k # [Suc k..<Suc k + length ys]"
    using upt_conv_Cons [of k "k + length (y # ys)"] by simp
  have "I (Suc k) (f a (y, k))" using Cons.prems by simp
  then have "I (Suc k + length ys) (foldl f (f a (y, k)) (zip ys [Suc k..<Suc k + length ys]))"
    by (rule Cons.IH) (use Cons.prems(2) in auto)
  then show ?case unfolding upt by simp
qed

lemma forEachE_zip_index_invariant:
  assumes "forEachE f a (zip xs [k..<k + length xs]) = Inr b"
    and "I k a"
    and "\<And>i st x st'. k \<le> i \<Longrightarrow> i < k + length xs \<Longrightarrow> I i st \<Longrightarrow> f st (x, i) = Inr st'
           \<Longrightarrow> I (Suc i) st'"
  shows "I (k + length xs) b"
  using assms
proof (induction xs arbitrary: k a)
  case Nil
  then show ?case by simp
next
  case (Cons x xs)
  have upt: "[k..<k + length (x # xs)] = k # [Suc k..<Suc k + length xs]"
    using upt_conv_Cons [of k "k + length (x # xs)"] by simp
  from Cons.prems(1) obtain a' where a': "f a (x, k) = Inr a'"
    and rest: "forEachE f a' (zip xs [Suc k..<Suc k + length xs]) = Inr b"
    unfolding upt by (auto split: sum.splits)
  have "I (Suc k) a'" using Cons.prems(2,3) a' by simp
  with rest have "I (Suc k + length xs) b"
    by (rule Cons.IH) (use Cons.prems(3) in auto)
  then show ?case by simp
qed

lemma stackValue_area:
  "areaSelectionData (selData (stackValue s tf ysc yo li i sd x st (cur, j)))
     = (let prev = (if js_lt cur (Num 0) then prevMin st else prevMax st);
            P = \<lparr>px = x, py = js_add (convert ysc (js_add prev cur)) yo\<rparr>;
            Q = \<lparr>px = x, py = js_add (convert ysc prev) yo\<rparr>;
            area = areaSelectionData (selData st);
            d = (case js_get area j of
                   Some d \<Rightarrow> d
                 | None \<Rightarrow> \<lparr>itemId = (if j < length (yKeys s) then Some (yKeys s ! j) else None),
                            points = []\<rparr>)
        in js_set area j (d\<lparr>points := js_set (js_set (points d) i P) (li - i) Q\<rparr>))"
  by (simp add: stackValue_def Let_def)

lemma good_new_points:
  assumes "i < n" "px P = px Q"
    and "length pts = 2 * n \<or> (pts = [] \<and> i = 0)"
    and "\<forall>i'<i. closedAt n \<lparr>itemId = k, points = pts\<rparr> i'"
  shows "good n (Suc i) \<lparr>itemId = k, points = js_set (js_set pts i P) (2 * n - 1 - i) Q\<rparr>"
proof -
  let ?pts = "js_set (js_set pts i P) (2 * n - 1 - i) Q"
  have len: "length ?pts = 2 * n" using assms(1,3) by (auto simp: length_js_set)
  have cl: "closedAt n \<lparr>itemId = k, points = ?pts\<rparr> i'" if "i' < Suc i" for i'
  proof (cases "i' = i")
    case True
    with assms(1,2) show ?thesis
      by (auto simp: closedAt_def js_get_js_set)
  next
    case False
    with that have lt: "i' < i" by simp
    with assms(4) obtain p q where pq: "js_get pts i' = Some p"
      "js_get pts (2 * n - 1 - i') = Some q" "px p = px q"
      by (auto simp: closedAt_def)
    from lt assms(1) have "i' \<noteq> 2 * n - 1 - i" "2 * n - 1 - i' \<noteq> i" "2 * n - 1 - i' \<noteq> 2 * n - 1 - i"
      by auto
    with pq False show ?thesis
      by (auto simp: closedAt_def js_get_js_set)
  qed
  from len cl show ?thesis by (simp add: good_def)
qed

lemma good_updated:
  assumes "i < n" "px P = px Q"
    and "length (points d) = 2 * n \<or> (points d = [] \<and> i = 0)"
    and "\<forall>i'<i. closedAt n d i'"
  shows "good n (Suc i) (d\<lparr>points := js_set (js_set (points d) i P) (2 * n - 1 - i) Q\<rparr>)"
proof -
  have "\<forall>i'<i. closedAt n \<lparr>itemId = itemId d, points = points d\<rparr> i'"
    using assms(4) by (simp add: closedAt_def)
  from good_new_points [OF assms(1,2,3) this]
  show ?thesis by (simp add: good_def closedAt_def)
qed

lemma colInv_step:
  assumes inv: "colInv n m i j (areaSelectionData (selData st))" and j: "j < m" and i: "i < n"
  shows "colInv n m i (Suc j)
           (areaSelectionData (selData (stackValue s tf ysc yo (2 * n - 1) i sd x st (cur, j))))"
proof -
  let ?area = "areaSelectionData (selData st)"
  define prev where "prev = (if js_lt cur (Num 0) then prevMin st else prevMax st)"
  define P where "P = \<lparr>px = x, py = js_add (convert ysc (js_add prev cur)) yo\<rparr>"
  define Q where "Q = \<lparr>px = x, py = js_add (convert ysc prev) yo\<rparr>"
  define d where "d = (case js_get ?area j of
                   Some d \<Rightarrow> d
                 | None \<Rightarrow> \<lparr>itemId = (if j < length (yKeys s) then Some (yKeys s ! j) else None),
                            points = []\<rparr>)"
  define dn where "dn = d\<lparr>points := js_set (js_set (points d) i P) (2 * n - 1 - i) Q\<rparr>"
  have area': "areaSelectionData (selData (stackValue s tf ysc yo (2 * n - 1) i sd x st (cur, j)))
               = js_set ?area j dn"
    unfolding stackValue_area by (simp add: Let_def prev_def P_def Q_def d_def dn_def)
  have PQ: "px P = px Q" by (simp add: P_def Q_def)
  show ?thesis
  proof (cases "i = 0")
    case True
    with inv have len: "length ?area = j"
      and old: "\<And>j'. j' < j \<Longrightarrow> \<exists>d. js_get ?area j' = Some d \<and> good n 1 d"
      by (auto simp: colInv_def)
    from len have "js_get ?area j = None" by (simp add: js_get_def)
    then have "points d = []" by (simp add: d_def)
    with True i PQ have "good n (Suc 0) dn"
      unfolding dn_def using good_updated [of 0 n P Q d] by simp
    with True len old show ?thesis
      unfolding area' colInv_def
      by (auto simp: length_js_set js_get_js_set less_Suc_eq)
  next
    case False
    with inv have len: "length ?area = m"
      and old: "\<And>j'. j' < m \<Longrightarrow> \<exists>d. js_get ?area j' = Some d
                        \<and> good n (if j' < j then Suc i else i) d"
      by (auto simp: colInv_def)
    from old [OF j] obtain d0 where d0: "js_get ?area j = Some d0" "good n i d0" by auto
    then have "d = d0" by (simp add: d_def)
    with d0 have "length (points d) = 2 * n" "\<forall>i'<i. closedAt n d i'" by (simp_all add: good_def)
    with i PQ have gd: "good n (Suc i) dn"
      unfolding dn_def using good_updated [of i n P Q d] by simp
    have "\<exists>d. js_get (js_set ?area j dn) j' = Some d
              \<and> good n (if j' < Suc j then Suc i else i) d" if "j' < m" for j'
    proof (cases "j' = j")
      case True
      with gd show ?thesis by (simp add: js_get_js_set)
    next
      case False
      then have "(j' < Suc j) = (j' < j)" by auto
      with False old [OF that] show ?thesis by (simp add: js_get_js_set)
    qed
    with False len j show ?thesis
      unfolding area' colInv_def by (auto simp: length_js_set)
  qed
qed

lemma stackRow_step:
  assumes run: "stackRow s tf xsc ysc rows sd (xd, i) = Inr sd'"
    and inv: "rowInv (length (xData s)) m i (areaSelectionData sd)"
    and i: "i < length (xData s)"
    and uniform: "\<forall>row\<in>set (yData s). length row = m"
  shows "rowInv (length (xData s)) m (Suc i) (areaSelectionData sd')"
proof -
  let ?n = "length (xData s)"
  from run have iy: "i < length (yData s)"
    by (auto simp: stackRow_def Let_def split: if_splits)
  with uniform have m: "length (yData s ! i) = m" by simp
  show ?thesis
  proof (cases "yData s ! i = []")
    case True
    with run iy have "sd' = sd" by (auto simp: stackRow_def Let_def split: if_splits)
    moreover from True m have "m = 0" by simp
    ultimately show ?thesis using inv by (auto simp: rowInv_def split: if_splits)
  next
    case False
    let ?f = "stackValue s tf ysc (halfBandwidth ysc) (2 * ?n - 1) i (rows ! i)
                (js_add (convert xsc xd) (halfBandwidth xsc))"
    let ?init = "\<lparr>prevMin = Num 0, prevMax = Num 0, selData = sd\<rparr>"
    from run iy False have sd': "sd' = selData (foldl ?f ?init (zip (yData s ! i) [0..<length (yData s ! i)]))"
      by (auto simp: stackRow_def Let_def mult.commute split: if_splits)
    have init: "colInv ?n m i 0 (areaSelectionData (selData ?init))"
      using inv by (auto simp: rowInv_def colInv_def split: if_splits)
    have "colInv ?n m i (0 + length (yData s ! i))
            (areaSelectionData (selData (foldl ?f ?init (zip (yData s ! i) [0..<0 + length (yData s ! i)]))))"
    proof (rule foldl_zip_index_invariant
             [where I = "\<lambda>j (st::stacking). colInv ?n m i j (areaSelectionData (selData st))"])
      show "colInv ?n m i 0 (areaSelectionData (selData ?init))" by (rule init)
    next
      fix j and st :: stacking and y
      assume "0 \<le> j" "j < 0 + length (yData s ! i)"
        and "colInv ?n m i j (areaSelectionData (selData st))"
      with m i show "colInv ?n m i (Suc j) (areaSelectionData (selData (?f st (y, j))))"
        by (intro colInv_step) auto
    qed
    then have "colInv ?n m i m (areaSelectionData sd')" using m sd' by simp
    then show ?thesis by (auto simp: colInv_def rowInv_def split: if_splits)
  qed
qed

text \<open>\<open>processData\<close> leaves rows of one length, one entry per value key.\<close>

lemma length_yValues: "length (yValues ks en d) = length ks"
  by (simp add: yValues_def)

lemma processData_rows_uniform:
  assumes "row \<in> set (yData (snd (processData fixNumericExtent s)))"
  shows "length row = length (yKeys s)"
proof -
  define rows where "rows = (if xKey s \<noteq> [] \<and> yKeys s \<noteq> []
                  then (case sdata s of Some d \<Rightarrow> d | None \<Rightarrow> []) else [])"
  define ys where "ys = map (yValues (yKeys s) (seriesItemEnabled s)) rows"
  have len: "length r = length (yKeys s)" if "r \<in> set ys" for r
    using that by (auto simp: ys_def length_yValues)
  have "yData (snd (processData fixNumericExtent s)) = ys
        \<or> (\<exists>f. yData (snd (processData fixNumericExtent s))
                 = map (\<lambda>i. map (f i) (ys ! i)) [0..<length ys])"
    unfolding processData_def Let_def rows_def [symmetric] ys_def [symmetric]
    by (auto simp: fireEvent_def)
  then show ?thesis
  proof
    assume "yData (snd (processData fixNumericExtent s)) = ys"
    with assms len show ?thesis by simp
  next
    assume "\<exists>f. yData (snd (processData fixNumericExtent s))
                 = map (\<lambda>i. map (f i) (ys ! i)) [0..<length ys]"
    then obtain f where "yData (snd (processData fixNumericExtent s))
                 = map (\<lambda>i. map (f i) (ys ! i)) [0..<length ys]" by blast
    with assms obtain i where "i < length ys" "row = map (f i) (ys ! i)" by auto
    with len [of "ys ! i"] show ?thesis by simp
  qed
qed

text \<open>
  C6. When the rows of \<open>yData\<close> all have the same length (as \<open>processData\<close> leaves
  them), every area datum that \<open>generateSelectionData\<close> returns has \<open>2n\<close> points for
  the \<open>n\<close> rows of \<open>xData\<close>, and for every row \<open>i\<close> the top point \<open>i\<close> and the bottom
  point \<open>2n - 1 - i\<close> exist and have the same x-coordinate.
\<close>

theorem polygon_closure:
  assumes gen: "generateSelectionData toFixed2 s = Inr (Some sd)"
    and uniform: "\<forall>row\<in>set (yData s). length row = m"
    and datum: "js_get (areaSelectionData sd) j = Some d"
  shows "length (points d) = 2 * length (xData s)
       \<and> (\<forall>i<length (xData s).
            \<exists>p q. js_get (points d) i = Some p
                \<and> js_get (points d) (2 * length (xData s) - 1 - i) = Some q
                \<and> px p = px q)"
proof -
  let ?n = "length (xData s)"
  from gen obtain rows xsc ysc where
    run: "forEachE (stackRow s toFixed2 xsc ysc rows)
            \<lparr>areaSelectionData = [], newMarkerSelectionData = [], labelSelectionData = []\<rparr>
            (zip (xData s) [0..<0 + length (xData s)]) = Inr sd"
    by (auto simp: generateSelectionData_def split: option.splits sum.splits)
  have "rowInv ?n m (0 + length (xData s)) (areaSelectionData sd)"
  proof (rule forEachE_zip_index_invariant
           [OF run, where I = "\<lambda>i (sd::selectionData). rowInv ?n m i (areaSelectionData sd)"])
    show "rowInv ?n m 0 (areaSelectionData
            \<lparr>areaSelectionData = [], newMarkerSelectionData = [], labelSelectionData = []\<rparr>)"
      by (simp add: rowInv_def)
  next
    fix i and st :: selectionData and x st'
    assume "0 \<le> i" "i < 0 + length (xData s)" "rowInv ?n m i (areaSelectionData st)"
      and "stackRow s toFixed2 xsc ysc rows st (x, i) = Inr st'"
    with uniform show "rowInv ?n m (Suc i) (areaSelectionData st')"
      by (intro stackRow_step) auto
  qed
  then have inv: "rowInv ?n m ?n (areaSelectionData sd)" by simp
  show ?thesis
  proof (cases "?n = 0")
    case True
    with inv datum show ?thesis by (simp add: rowInv_def js_get_def)
  next
    case False
    with inv have len: "length (areaSelectionData sd) = m"
      and all: "\<And>j. j < m \<Longrightarrow> \<exists>d. js_get (areaSelectionData sd) j = Some d \<and> good ?n ?n d"
      by (auto simp: rowInv_def)
    from datum len have "j < m" by (auto simp: js_get_def split: if_splits)
    from all [OF this] datum have "good ?n ?n d" by auto
    then show ?thesis by (simp add: good_def closedAt_def)
  qed
qed

lemma readySeries_eq:
  "readySeries =
     exampleSeries\<lparr>xData := [Some (JStr ''Jan''), Some (JStr ''Feb'')],
                   yData := [[Num 5, Num (- 3)], [Num 10, Num (- 15)]],
                   yDomain := (Num (- 15), Num 10),
                   fired := [DataProcessed],
                   schart := Some \<lparr>layoutPending = False, dataPending = False\<rparr>,
                   xAxis := Some exampleXScale, yAxis := Some exampleYScale\<rparr>"
  by (simp add: readySeries_def processData_def Let_def exampleSeries_def newSeries_def
        exampleRows_def yValues_def fireEvent_def findMinMax_def findLargestMinMax_def)

lemma readySeries_fields:
  "xData readySeries = [Some (JStr ''Jan''), Some (JStr ''Feb'')]"
  "yData readySeries = [[Num 5, Num (- 3)], [Num 10, Num (- 15)]]"
  "sdata readySeries = Some exampleRows"
  "xAxis readySeries = Some exampleXScale"
  "yAxis readySeries = Some exampleYScale"
  "yKeys readySeries = [''a'', ''b'']"
  by (simp_all add: readySeries_eq exampleSeries_def newSeries_def)

lemma gen_example:
  "\<exists>sd d. generateSelectionData (\<lambda>r. []) readySeries = Inr (Some sd)
        \<and> js_get (areaSelectionData sd) 1 = Some d
        \<and> points d = [Some \<lparr>px = Num 50, py = Num 30\<rparr>, Some \<lparr>px = Num 150, py = Num 150\<rparr>,
                       Some \<lparr>px = Num 150, py = Num 0\<rparr>, Some \<lparr>px = Num 50, py = Num 0\<rparr>]"
  by (simp add: generateSelectionData_def readySeries_fields stackRow_def stackValue_def Let_def
        exampleXScale_def exampleYScale_def halfBandwidth_def exampleRows_def js_get_def js_set_def
        labelTextOf_def upt_conv_Cons eval_nat_numeral)

text \<open>C6 on the example series: the polygon of \<open>b\<close> has 4 points, closed at x = 50.\<close>

theorem polygon_closure_witness:
  "\<exists>sd d. generateSelectionData (\<lambda>r. []) readySeries = Inr (Some sd)
        \<and> js_get (areaSelectionData sd) 1 = Some d
        \<and> length (points d) = 4
        \<and> js_get (points d) 0 = Some \<lparr>px = Num 50, py = Num 30\<rparr>
        \<and> js_get (points d) 3 = Some \<lparr>px = Num 50, py = Num 0\<rparr>"
proof -
  from gen_example obtain sd d where
    gen: "generateSelectionData (\<lambda>r. []) readySeries = Inr (Some sd)"
    and d: "js_get (areaSelectionData sd) 1 = Some d"
    and p: "points d = [Some \<lparr>px = Num 50, py = Num 30\<rparr>, Some \<lparr>px = Num 150, py = Num 150\<rparr>,
                       Some \<lparr>px = Num 150, py = Num 0\<rparr>, Some \<lparr>px = Num 50, py = Num 0\<rparr>]"
    by blast
  have u: "\<forall>row\<in>set (yData readySeries). length row = 2"
    by (simp add: readySeries_fields)
  from polygon_closure [OF gen u d] have "length (points d) = 4"
    by (simp add: readySeries_fields)
  with gen d p show ?thesis by (auto simp: js_get_def)
qed

text \<open>
  C3 (as amended). If the inputs are not ready, \<open>update\<close> builds no selection data and
  leaves every retained selection unchanged; the one thing it changes is the visibility
  of the series' group, which it sets to "the series is visible and both \<open>xData\<close> and
  \<open>yData\<close> are non-empty".
\<close>

theorem update_not_ready:
  assumes "notReady s"
  shows "update toFixed2 markerSize s
         = Inr (s\<lparr>groupVisible := (visible s \<and> xData s \<noteq> [] \<and> yData s \<noteq> [])\<rparr>)"
proof -
  have "notReady (s\<lparr>groupVisible := b\<rparr>) = notReady s" for b
    by (simp add: notReady_def)
  with assms show ?thesis by (simp add: update_def Let_def)
qed

text \<open>C3 (as amended) on the example series without a chart.\<close>

theorem update_not_ready_witness:
  "notReady (readySeries\<lparr>schart := None\<rparr>)
   \<and> update (\<lambda>r. []) (Num 8) (readySeries\<lparr>schart := None\<rparr>)
     = Inr (readySeries\<lparr>schart := None, groupVisible := True\<rparr>)"
proof -
  have n: "notReady (readySeries\<lparr>schart := None\<rparr>)" by (simp add: notReady_def)
  have "visible readySeries" by (simp add: readySeries_eq exampleSeries_def newSeries_def)
  with n update_not_ready [OF n, of "\<lambda>r. []" "Num 8"] show ?thesis
    by (simp add: readySeries_fields)
qed

text \<open>
  C3 as stated fails: an invisible series whose group was visible is not ready, and
  \<open>update\<close> hides its group, and with it the nodes it retains.
\<close>

theorem update_hides_group_counterexample:
  "notReady hiddenSeries \<and> groupVisible hiddenSeries
   \<and> update (\<lambda>r. []) (Num 8) hiddenSeries = Inr (hiddenSeries\<lparr>groupVisible := False\<rparr>)
   \<and> update (\<lambda>r. []) (Num 8) hiddenSeries \<noteq> Inr hiddenSeries"
proof -
  have n: "notReady hiddenSeries" by (simp add: notReady_def hiddenSeries_def)
  have g: "groupVisible hiddenSeries" by (simp add: hiddenSeries_def)
  have v: "\<not> visible hiddenSeries" by (simp add: hiddenSeries_def)
  have u: "update (\<lambda>r. []) (Num 8) hiddenSeries = Inr (hiddenSeries\<lparr>groupVisible := False\<rparr>)"
    using n v by (simp add: update_def Let_def notReady_def)
  have "hiddenSeries\<lparr>groupVisible := False\<rparr> \<noteq> hiddenSeries"
  proof
    assume "hiddenSeries\<lparr>groupVisible := False\<rparr> = hiddenSeries"
    then have "groupVisible (hiddenSeries\<lparr>groupVisible := False\<rparr>) = groupVisible hiddenSeries"
      by simp
    with g show False by simp
  qed
  with n g u show ?thesis by simp
qed

end
